theory Spec2Isabelle
  imports Main "HOL-Library.Word"
begin

section \<open>The recovery installer: install.c and recovery.c\<close>

text \<open>
  The development follows the two C files of the recovery tool. Collaborators that live
  outside these files (the archive library, the signature verifier, the script interpreter,
  the mount table, the child process) are inputs of the model: each call to one of them
  reads its outcome from a record of outcomes, and every call that matters is written to a
  trace, so that what was called, and how often, can be read off the result.
\<close>

subsection \<open>C strings and the libc calls the code makes\<close>

text \<open>
  A buffer is a list of bytes. C's string functions stop at the first NUL byte:
  \<open>cstr\<close> is the string a \<open>char *\<close> to the buffer denotes.
\<close>

definition NUL :: char where
  "NUL = CHR 0x00"

definition cstr :: "string \<Rightarrow> string" where
  "cstr buf = takeWhile (\<lambda>c. c \<noteq> NUL) buf"

text \<open>
  \<open>strtok\<close>: skip leading delimiters; when nothing is left, return NULL (None); otherwise
  the token runs up to the next delimiter, which is overwritten by NUL, and the saved
  pointer is left behind that delimiter. The second component is the text the saved
  pointer denotes, which is what \<open>strtok(NULL, ...)\<close> continues from.
\<close>

definition strtok :: "string \<Rightarrow> string \<Rightarrow> string option \<times> string" where
  "strtok delims s =
     (let s1 = dropWhile (\<lambda>c. c \<in> set delims) s in
      if s1 = [] then (None, [])
      else (Some (takeWhile (\<lambda>c. c \<notin> set delims) s1),
            drop 1 (dropWhile (\<lambda>c. c \<notin> set delims) s1)))"


text \<open>
  \<open>fgets(buf, n, f)\<close>: at end of input NULL (None); otherwise at most \<open>n - 1\<close> bytes, ending
  with the first newline when it comes earlier. The second component is the unread input.
\<close>

definition fgets :: "nat \<Rightarrow> string \<Rightarrow> (string \<times> string) option" where
  "fgets n s =
     (if s = [] then None
      else
        let line = takeWhile (\<lambda>c. c \<noteq> CHR 0x0A) s;
            k = (if length line < length s then length line + 1 else length line);
            m = min k (n - 1)
        in Some (take m s, drop m s))"

lemma fgets_shorter:
  assumes "2 \<le> n" and "fgets n s = Some (b, r)"
  shows "length r < length s"
proof -
  from assms(2) have ne: "s \<noteq> []"
    by (auto simp: fgets_def split: if_splits)
  define line where "line = takeWhile (\<lambda>c. c \<noteq> CHR 0x0A) s"
  define k where "k = (if length line < length s then length line + 1 else length line)"
  have "1 \<le> k"
    using ne by (cases s) (auto simp: k_def line_def)
  with assms(1) have m: "1 \<le> min k (n - 1)" by simp
  from assms(2) ne have "r = drop (min k (n - 1)) s"
    by (auto simp: fgets_def Let_def k_def line_def split: if_splits)
  with m ne show ?thesis by (cases s) auto
qed

text \<open>The buffers a loop \<open>while (fgets(buf, n, f) != NULL)\<close> sees, in order.\<close>

function fgets_all :: "nat \<Rightarrow> string \<Rightarrow> string list" where
  "fgets_all n s =
     (if n < 2 then []
      else case fgets n s of None \<Rightarrow> [] | Some (b, r) \<Rightarrow> b # fgets_all n r)"
  by pat_completeness auto
termination
proof (relation "measure (\<lambda>(n, s). length s)")
  show "wf (measure (\<lambda>(n, s). length s))" by simp
next
  fix n :: nat and s :: string and x2 x y
  assume "\<not> n < 2" and "fgets n s = Some x2" and "(x, y) = x2"
  then have "length y < length s"
    using fgets_shorter [of n s x y] by simp
  then show "((n, y), n, s) \<in> measure (\<lambda>(n, s). length s)" by simp
qed

declare fgets_all.simps [simp del]

text \<open>All tokens that repeated calls of \<open>strtok\<close> with one delimiter set deliver.\<close>

lemma strtok_shorter:
  assumes "strtok delims s = (Some t, r)"
  shows "length r < length s"
proof -
  define s1 where "s1 = dropWhile (\<lambda>c. c \<in> set delims) s"
  from assms have ne: "s1 \<noteq> []"
    by (auto simp: strtok_def Let_def s1_def split: if_splits)
  from assms ne have r: "r = drop 1 (dropWhile (\<lambda>c. c \<notin> set delims) s1)"
    by (auto simp: strtok_def Let_def s1_def split: if_splits)
  have hd: "hd s1 \<notin> set delims"
    using ne unfolding s1_def by (metis hd_dropWhile)
  then have "dropWhile (\<lambda>c. c \<notin> set delims) s1 = dropWhile (\<lambda>c. c \<notin> set delims) (tl s1)"
    using ne by (cases s1) auto
  moreover have "length (dropWhile (\<lambda>c. c \<notin> set delims) (tl s1)) \<le> length (tl s1)"
    by (rule length_dropWhile_le)
  ultimately have "length (dropWhile (\<lambda>c. c \<notin> set delims) s1) \<le> length (tl s1)"
    by simp
  then have "length r < length s1"
    using ne r by (cases s1) auto
  moreover have "length s1 \<le> length s"
    by (simp add: s1_def length_dropWhile_le)
  ultimately show ?thesis by simp
qed

function tokens :: "string \<Rightarrow> string \<Rightarrow> string list" where
  "tokens delims s =
     (case strtok delims s of (None, r) \<Rightarrow> [] | (Some t, r) \<Rightarrow> t # tokens delims r)"
  by pat_completeness auto
termination
proof (relation "measure (\<lambda>(d, s). length s)")
  show "wf (measure (\<lambda>(d, s). length s))" by simp
next
  fix delims s :: string and x y t
  assume "(x, y) = strtok delims s" and "x = Some t"
  then have "length y < length s"
    using strtok_shorter [of delims s t y] by simp
  then show "((delims, y), delims, s) \<in> measure (\<lambda>(d, s). length s)" by simp
qed

declare tokens.simps [simp del]

subsection \<open>Result codes and the trace\<close>

text \<open>
  Modelled from the spec: install.h is not among the sources. It declares the result
  enumeration SUCCESS, ERROR, CORRUPT in this order, SUCCESS being the 0-equivalent, so
  the enumerators are 0, 1 and 2. install.c mixes the enumerators with the literal 1
  (lines 190 and 197), so results are kept as C ints.
\<close>

definition INSTALL_SUCCESS :: int where
  "INSTALL_SUCCESS = 0"

definition INSTALL_ERROR :: int where
  "INSTALL_ERROR = 1"

definition INSTALL_CORRUPT :: int where
  "INSTALL_CORRUPT = 2"

text \<open>What line 109 of install.c hands to \<open>%s\<close>.\<close>

datatype reported_line =
    Line string       \<comment> \<open>the C string at \<open>line\<close>\<close>
  | Not_found         \<comment> \<open>the fixed text used when \<open>next\<close> is NULL\<close>
  | Null_line         \<comment> \<open>\<open>line\<close> itself, still NULL\<close>

text \<open>
  The texts the program prints are Chinese; each is named here by a constructor, with the
  line of install.c that prints it and the values it is formatted with.
\<close>

datatype message =
    Invalid_data_length int          \<comment> \<open>line 53\<close>
  | Cannot_allocate_data int         \<comment> \<open>line 58\<close>
  | Data_read_error                  \<comment> \<open>line 63\<close>
  | Cannot_read_script               \<comment> \<open>line 83\<close>
  | Script_syntax_error              \<comment> \<open>line 91\<close>
  | Script_line_error int reported_line   \<comment> \<open>line 109\<close>
  | Not_in_package string            \<comment> \<open>line 126\<close>
  | Cannot_stat string               \<comment> \<open>line 133\<close>
  | Cannot_allocate_firmware nat     \<comment> \<open>line 144\<close>
  | Cannot_read_from_package string  \<comment> \<open>line 150\<close>
  | Cannot_open_file string          \<comment> \<open>line 156\<close>
  | Cannot_read_firmware             \<comment> \<open>line 160\<close>
  | Cannot_save string               \<comment> \<open>line 167\<close>
  | Cannot_create string             \<comment> \<open>line 189\<close>
  | Cannot_copy                      \<comment> \<open>line 196\<close>
  | Duplicate_firmware               \<comment> \<open>line 279\<close>
  | Unknown_command string           \<comment> \<open>line 293\<close>
  | Child_failed string              \<comment> \<open>line 301\<close>
  | Installing                       \<comment> \<open>line 316\<close>
  | No_update_script                 \<comment> \<open>line 327\<close>
  | Cannot_set_up_environment        \<comment> \<open>line 332\<close>
  | Preparing                        \<comment> \<open>line 421\<close>
  | Cannot_mount string              \<comment> \<open>line 426\<close>
  | Bad_path string                  \<comment> \<open>line 432\<close>
  | Opening                          \<comment> \<open>line 436\<close>
  | Cannot_load_keys                 \<comment> \<open>line 442\<close>
  | Verifying                        \<comment> \<open>line 448\<close>
  | Cannot_open_package string int   \<comment> \<open>line 458\<close>
  | Signature_failed                 \<comment> \<open>line 466\<close>

text \<open>
  The trace: the program's own messages (\<open>LOGE\<close> and \<open>ui_print\<close>; the \<open>LOGI\<close> lines are
  left out), the display calls, and the calls to collaborators that change something.
  The progress calls carry the child's tokens as text: what \<open>strtof\<close> and \<open>strtol\<close> make of
  them is the display's business.
\<close>

datatype event =
    Msg message
  | Ui_print string
  | Ui_show_progress string string
  | Ui_set_progress string
  | Open_archive string
  | Close_archive
  | Verify_signature
  | Extract_binary
  | Run_binary string
  | Register_package_root
  | Unregister_package_root
  | Parse_script
  | Exec_script
  | Remember_firmware string nat

text \<open>
  Handing NULL to \<open>strtof\<close>, \<open>strtol\<close> or \<open>strdup\<close> ends the process; the model returns
  this fault instead of a result.
\<close>

datatype fault = Null_pointer

subsection \<open>The child's protocol (install.c, lines 251 to 295)\<close>

record protocol_state =
  firmware_type :: "string option"
  firmware_filename :: "string option"
  shown :: "event list"

definition show_event :: "event \<Rightarrow> protocol_state \<Rightarrow> protocol_state" where
  "show_event e st = st\<lparr>shown := shown st @ [e]\<rparr>"

text \<open>The body of the loop, for one buffer filled by \<open>fgets\<close>.\<close>

definition protocol_line :: "string \<Rightarrow> protocol_state \<Rightarrow> fault + protocol_state" where
  "protocol_line buffer st =
     (case strtok '' \<newline>'' (cstr buffer) of
        (None, r0) \<Rightarrow> Inr st
      | (Some command, r1) \<Rightarrow>
          if command = ''progress'' then
            (case strtok '' \<newline>'' r1 of (fraction_s, r2) \<Rightarrow>
             case strtok '' \<newline>'' r2 of (seconds_s, r3) \<Rightarrow>
             case (fraction_s, seconds_s) of
               (Some f, Some s) \<Rightarrow> Inr (show_event (Ui_show_progress f s) st)
             | _ \<Rightarrow> Inl Null_pointer)
          else if command = ''set_progress'' then
            (case strtok '' \<newline>'' r1 of
               (Some f, r2) \<Rightarrow> Inr (show_event (Ui_set_progress f) st)
             | (None, r2) \<Rightarrow> Inl Null_pointer)
          else if command = ''firmware'' then
            (case strtok '' \<newline>'' r1 of (type, r2) \<Rightarrow>
             case strtok '' \<newline>'' r2 of (filename, r3) \<Rightarrow>
             if type \<noteq> None \<and> filename \<noteq> None then
               (if firmware_type st \<noteq> None then Inr (show_event (Msg Duplicate_firmware) st)
                else Inr (st\<lparr>firmware_type := type, firmware_filename := filename\<rparr>))
             else Inr st)
          else if command = ''ui_print'' then
            (case strtok ''\<newline>'' r1 of
               (Some str, r2) \<Rightarrow> Inr (show_event (Ui_print str) st)
             | (None, r2) \<Rightarrow> Inr (show_event (Ui_print ''\<newline>'') st))
          else Inr (show_event (Msg (Unknown_command command)) st))"

text \<open>The loop over the buffers, and the loop over the pipe's contents.\<close>

fun process_lines :: "string list \<Rightarrow> protocol_state \<Rightarrow> fault + protocol_state" where
  "process_lines [] st = Inr st"
| "process_lines (buffer # rest) st =
     (case protocol_line buffer st of
        Inl e \<Rightarrow> Inl e
      | Inr st' \<Rightarrow> process_lines rest st')"

definition protocol_start :: protocol_state where
  "protocol_start = \<lparr>firmware_type = None, firmware_filename = None, shown = []\<rparr>"

definition protocol_loop :: "string \<Rightarrow> fault + protocol_state" where
  "protocol_loop from_child = process_lines (fgets_all 1024 from_child) protocol_start"


subsection \<open>Reading the public keys (install.c, load_keys)\<close>

text \<open>
  \<open>load_keys\<close> reads the key file with \<open>fscanf\<close>. A format is a sequence of directives;
  the three kinds that occur are modelled on the unread input: white space in the format
  skips any white space, a literal character must be the next character, and \<open>%i\<close>
  skips white space and reads an optionally signed integer whose base follows its prefix
  (0x or 0X: sixteen; 0: eight; otherwise ten). A directive that fails leaves the input
  where it stopped, and \<open>fscanf\<close> returns the number of conversions made so far; the code
  only compares that number with the number of conversions of the format, so a format
  is modelled as succeeding (all conversions made) or failing (None).
\<close>

definition isspace :: "char \<Rightarrow> bool" where
  "isspace c \<longleftrightarrow> c \<in> set [CHR '' '', CHR 0x09, CHR 0x0A, CHR 0x0B, CHR 0x0C, CHR 0x0D]"

definition skip_space :: "string \<Rightarrow> string" where
  "skip_space s = dropWhile isspace s"

definition match_char :: "char \<Rightarrow> string \<Rightarrow> string option" where
  "match_char c s = (case s of [] \<Rightarrow> None | x # r \<Rightarrow> if x = c then Some r else None)"

text \<open>The directives \<open>" c"\<close>: white space, then the literal.\<close>

definition lit :: "char \<Rightarrow> string \<Rightarrow> string option" where
  "lit c s = match_char c (skip_space s)"

definition digit_value :: "char \<Rightarrow> nat option" where
  "digit_value c =
     (let k = of_char c :: nat in
      if 48 \<le> k \<and> k \<le> 57 then Some (k - 48)
      else if 97 \<le> k \<and> k \<le> 102 then Some (k - 87)
      else if 65 \<le> k \<and> k \<le> 70 then Some (k - 55)
      else None)"

definition is_digit :: "nat \<Rightarrow> char \<Rightarrow> bool" where
  "is_digit base c = (case digit_value c of None \<Rightarrow> False | Some d \<Rightarrow> d < base)"

definition digits_value :: "nat \<Rightarrow> string \<Rightarrow> nat" where
  "digits_value base ds = foldl (\<lambda>acc c. acc * base + (case digit_value c of None \<Rightarrow> 0 | Some d \<Rightarrow> d)) 0 ds"

text \<open>
  The conversion \<open>%i\<close>, after the white space: an optional sign; the base, where the
  prefix 0x counts only when a hexadecimal digit follows it (otherwise the 0 is read as
  an octal number and the x is left unread); and the digits of that base, at least one.
  No field width is given, and all the digits are read. The C library converts what it
  has read with \<open>strtoimax\<close>: a number outside the range of the 64-bit \<open>intmax_t\<close> is
  replaced by the limit of that range on its side.
\<close>

definition INTMAX_MAX :: int where
  "INTMAX_MAX = 2 ^ 63 - 1"

definition INTMAX_MIN :: int where
  "INTMAX_MIN = - (2 ^ 63)"

definition strtoimax_range :: "int \<Rightarrow> int" where
  "strtoimax_range v =
     (if v < INTMAX_MIN then INTMAX_MIN
      else if INTMAX_MAX < v then INTMAX_MAX
      else v)"

definition strip_sign :: "string \<Rightarrow> bool \<times> string" where
  "strip_sign s =
     (case s of
        [] \<Rightarrow> (False, s)
      | c # r \<Rightarrow>
          if c = CHR ''-'' then (True, r)
          else if c = CHR ''+'' then (False, r)
          else (False, s))"

definition hex_prefix :: "string \<Rightarrow> bool" where
  "hex_prefix s =
     (case s of
        [] \<Rightarrow> False
      | z # s1 \<Rightarrow>
          (case s1 of
             [] \<Rightarrow> False
           | x # s2 \<Rightarrow>
               (case s2 of
                  [] \<Rightarrow> False
                | h # r \<Rightarrow> z = CHR ''0'' \<and> (x = CHR ''x'' \<or> x = CHR ''X'') \<and> is_digit 16 h)))"

definition number_base :: "string \<Rightarrow> nat \<times> string" where
  "number_base s =
     (if hex_prefix s then (16, drop 2 s)
      else case s of
             [] \<Rightarrow> (10, s)
           | z # r \<Rightarrow> if z = CHR ''0'' then (8, s) else (10, s))"

definition scan_i :: "string \<Rightarrow> (int \<times> string) option" where
  "scan_i s0 =
     (case strip_sign (skip_space s0) of (neg, s1) \<Rightarrow>
      case number_base s1 of (base, s2) \<Rightarrow>
        let ds = takeWhile (is_digit base) s2
        in if ds = [] then None
           else Some (strtoimax_range
                        (if neg then - int (digits_value base ds) else int (digits_value base ds)),
                      drop (length ds) s2))"

text \<open>
  The key as rsa.h declares it: \<open>len\<close> is an int, the other fields are 32-bit words. \<open>%i\<close>
  stores the converted number through an \<open>int *\<close>: the 64-bit result of the conversion is
  cut to its low 32 bits, read as a signed int in \<open>len\<close> and as an unsigned word in the
  other fields.
\<close>

record RSAPublicKey =
  len :: int
  n0inv :: "32 word"
  n :: "32 word list"
  rr :: "32 word list"

definition store_int :: "int \<Rightarrow> int" where
  "store_int v = sint (word_of_int v :: 32 word)"

definition store_word :: "int \<Rightarrow> 32 word" where
  "store_word v = word_of_int v"

text \<open>The format \<open>" { %i , %i , { %i"\<close> (line 374): None when fewer than 3 conversions.\<close>

definition scan_head :: "string \<Rightarrow> (int \<times> int \<times> int \<times> string) option" where
  "scan_head f =
     (case lit CHR ''{'' f of None \<Rightarrow> None | Some f1 \<Rightarrow>
      case scan_i f1 of None \<Rightarrow> None | Some (a, f2) \<Rightarrow>
      case lit CHR '','' f2 of None \<Rightarrow> None | Some f3 \<Rightarrow>
      case scan_i f3 of None \<Rightarrow> None | Some (b, f4) \<Rightarrow>
      case lit CHR '','' f4 of None \<Rightarrow> None | Some f5 \<Rightarrow>
      case lit CHR ''{'' f5 of None \<Rightarrow> None | Some f6 \<Rightarrow>
      case scan_i f6 of None \<Rightarrow> None | Some (c, f7) \<Rightarrow> Some (a, b, c, f7))"

text \<open>The format \<open>" , %i"\<close> (lines 383 and 387), and a loop making \<open>k\<close> calls of it.\<close>

definition scan_comma_i :: "string \<Rightarrow> (int \<times> string) option" where
  "scan_comma_i f =
     (case lit CHR '','' f of None \<Rightarrow> None | Some f1 \<Rightarrow> scan_i f1)"

fun scan_words :: "nat \<Rightarrow> string \<Rightarrow> (int list \<times> string) option" where
  "scan_words 0 f = Some ([], f)"
| "scan_words (Suc k) f =
     (case scan_comma_i f of
        None \<Rightarrow> None
      | Some (v, f1) \<Rightarrow>
          (case scan_words k f1 of
             None \<Rightarrow> None
           | Some (vs, f2) \<Rightarrow> Some (v # vs, f2)))"

text \<open>The format \<open>" } , { %i"\<close> (line 385).\<close>

definition scan_middle :: "string \<Rightarrow> (int \<times> string) option" where
  "scan_middle f =
     (case lit CHR ''}'' f of None \<Rightarrow> None | Some f1 \<Rightarrow>
      case lit CHR '','' f1 of None \<Rightarrow> None | Some f2 \<Rightarrow>
      case lit CHR ''{'' f2 of None \<Rightarrow> None | Some f3 \<Rightarrow> scan_i f3)"

text \<open>
  The format \<open>" } } "\<close> (line 389). Its result is not looked at: the input is left where
  the format stopped matching.
\<close>

definition scan_close :: "string \<Rightarrow> string" where
  "scan_close f =
     (case lit CHR ''}'' f of
        None \<Rightarrow> skip_space f
      | Some f1 \<Rightarrow>
          (case lit CHR ''}'' f1 of
             None \<Rightarrow> skip_space f1
           | Some f2 \<Rightarrow> skip_space f2))"

text \<open>
  One turn of the loop up to the \<open>fgetc\<close> (lines 374 to 389); \<open>nwords\<close> is the macro
  \<open>RSANUMWORDS\<close> of rsa.h, which is not among the sources. None is the jump to \<open>exit\<close>.
\<close>

definition scan_key :: "nat \<Rightarrow> string \<Rightarrow> (RSAPublicKey \<times> string) option" where
  "scan_key nwords f =
     (case scan_head f of
        None \<Rightarrow> None
      | Some (l, ninv, n0, f1) \<Rightarrow>
          if store_int l \<noteq> int nwords then None
          else
            (case scan_words (nat (store_int l) - 1) f1 of
               None \<Rightarrow> None
             | Some (ns, f2) \<Rightarrow>
                 (case scan_middle f2 of
                    None \<Rightarrow> None
                  | Some (rr0, f3) \<Rightarrow>
                      (case scan_words (nat (store_int l) - 1) f3 of
                         None \<Rightarrow> None
                       | Some (rs, f4) \<Rightarrow>
                           Some (\<lparr>len = store_int l, n0inv = store_word ninv,
                                  n = map store_word (n0 # ns),
                                  rr = map store_word (rr0 # rs)\<rparr>,
                                 scan_close f4)))))"

lemma skip_space_length: "length (skip_space s) \<le> length s"
  by (simp add: skip_space_def length_dropWhile_le)

lemma lit_length: "lit c s = Some r \<Longrightarrow> length r < length s"
  using skip_space_length [of s]
  by (auto simp: lit_def match_char_def split: list.splits if_splits)

lemma scan_i_length: "scan_i s = Some (v, r) \<Longrightarrow> length r \<le> length s"
proof -
  assume a: "scan_i s = Some (v, r)"
  obtain neg s1 where s1: "strip_sign (skip_space s) = (neg, s1)"
    by (cases "strip_sign (skip_space s)")
  obtain base s2 where s2: "number_base s1 = (base, s2)"
    by (cases "number_base s1")
  have "strip_sign x = (neg, y) \<Longrightarrow> length y \<le> length x" for x y
    by (cases x) (auto simp: strip_sign_def split: if_splits)
  from this [OF s1] have "length s1 \<le> length (skip_space s)" .
  then have l1: "length s1 \<le> length s"
    using skip_space_length [of s] by simp
  have "number_base x = (base, y) \<Longrightarrow> length y \<le> length x" for x y
    by (cases x) (auto simp: number_base_def split: if_splits)
  from this [OF s2] have l2: "length s2 \<le> length s1" .
  from a s1 s2 obtain k where "r = drop k s2"
    by (auto simp: scan_i_def Let_def split: if_splits)
  then have "length r \<le> length s2" by simp
  with l1 l2 show ?thesis by simp
qed

lemma scan_comma_i_length: "scan_comma_i s = Some (v, r) \<Longrightarrow> length r \<le> length s"
  by (auto simp: scan_comma_i_def split: option.splits dest!: lit_length scan_i_length)

lemma scan_words_length: "scan_words k s = Some (vs, r) \<Longrightarrow> length r \<le> length s"
proof (induction k arbitrary: s vs)
  case 0
  then show ?case by simp
next
  case (Suc k)
  then obtain v f1 ws where a: "scan_comma_i s = Some (v, f1)" and b: "scan_words k f1 = Some (ws, r)"
    by (auto split: option.splits)
  from scan_comma_i_length [OF a] Suc.IH [OF b] show ?case by simp
qed

lemma scan_middle_length: "scan_middle s = Some (v, r) \<Longrightarrow> length r \<le> length s"
  by (auto simp: scan_middle_def split: option.splits dest!: lit_length scan_i_length)

lemma scan_head_length: "scan_head s = Some (a, b, c, r) \<Longrightarrow> length r \<le> length s"
  by (auto simp: scan_head_def split: option.splits dest!: lit_length scan_i_length)

lemma scan_close_length: "length (scan_close s) \<le> length s"
proof -
  have "lit c x = Some y \<Longrightarrow> length (skip_space y) \<le> length x" for c x y
    using lit_length [of c x y] skip_space_length [of y] by simp
  then show ?thesis
    using skip_space_length [of s]
    by (auto simp: scan_close_def split: option.splits dest!: lit_length
        intro: order_trans [OF skip_space_length])
qed

lemma scan_key_length:
  assumes "scan_key nwords s = Some (key, r)"
  shows "length r \<le> length s"
proof -
  from assms obtain l ninv n0 f1 ns f2 rr0 f3 rs f4 where
    h: "scan_head s = Some (l, ninv, n0, f1)" and
    w1: "scan_words (nat (store_int l) - 1) f1 = Some (ns, f2)" and
    m: "scan_middle f2 = Some (rr0, f3)" and
    w2: "scan_words (nat (store_int l) - 1) f3 = Some (rs, f4)" and
    r: "r = scan_close f4"
    by (auto simp: scan_key_def split: option.splits if_splits)
  from scan_head_length [OF h] scan_words_length [OF w1] scan_middle_length [OF m]
    scan_words_length [OF w2] scan_close_length [of f4] r
  show ?thesis by simp
qed

text \<open>
  The loop of \<open>load_keys\<close> on the unread input \<open>f\<close>, with the keys read so far. After a key,
  \<open>fgetc\<close> decides: a comma goes round again, the end of the input returns the keys, and
  any other character jumps to \<open>exit\<close>, which frees what was read and returns NULL.
\<close>

function load_keys_loop :: "nat \<Rightarrow> string \<Rightarrow> RSAPublicKey list \<Rightarrow> RSAPublicKey list option" where
  "load_keys_loop nwords f out =
     (case scan_key nwords f of
        None \<Rightarrow> None
      | Some (key, f1) \<Rightarrow>
          (case f1 of
             [] \<Rightarrow> Some (out @ [key])
           | c # f2 \<Rightarrow> if c = CHR '','' then load_keys_loop nwords f2 (out @ [key]) else None))"
  by pat_completeness auto
termination
proof (relation "measure (\<lambda>(nwords, f, out). length f)")
  show "wf (measure (\<lambda>(nwords, f, out). length f))" by simp
next
  fix nwords :: nat and f :: string and out :: "RSAPublicKey list"
    and x2 key f1 c f2
  assume "scan_key nwords f = Some x2" and "(key, f1) = x2" and "f1 = c # f2"
  then have "length (c # f2) \<le> length f"
    using scan_key_length [of nwords f key f1] by simp
  then show "((nwords, f2, out @ [key]), nwords, f, out) \<in> measure (\<lambda>(nwords, f, out). length f)"
    by simp
qed

declare load_keys_loop.simps [simp del]

text \<open>
  \<open>load_keys\<close>: the file's contents, or None when it cannot be opened. The result None is
  the NULL return, with \<open>*numKeys = 0\<close>; the result \<open>Some keys\<close> is the array, with
  \<open>*numKeys = length keys\<close>. The three \<open>LOGE\<close> lines of the function are not part of
  the result.
\<close>

definition load_keys :: "nat \<Rightarrow> string option \<Rightarrow> RSAPublicKey list option" where
  "load_keys nwords file =
     (case file of
        None \<Rightarrow> None
      | Some f \<Rightarrow> load_keys_loop nwords f [])"

definition numKeys :: "RSAPublicKey list option \<Rightarrow> nat" where
  "numKeys r = (case r of None \<Rightarrow> 0 | Some keys \<Rightarrow> length keys)"

subsection \<open>The archive and the other collaborators of install.c\<close>

text \<open>
  An archive entry: the bytes its header promises (\<open>uncompLen\<close> is their number, taken to
  fit an int), and whether \<open>mzReadZipEntry\<close> delivers them. An archive is what
  \<open>mzFindZipEntry\<close> answers for a name.
\<close>

record zip_entry =
  contents :: string
  readable :: bool

type_synonym zip_archive = "string \<Rightarrow> zip_entry option"

definition uncompLen :: "zip_entry \<Rightarrow> nat" where
  "uncompLen entry = length (contents entry)"

text \<open>The child: what it writes to the pipe before the pipe closes, and how it ends.\<close>

record child_run =
  child_output :: string
  exited :: bool          \<comment> \<open>\<open>WIFEXITED(status)\<close>\<close>
  exit_status :: int      \<comment> \<open>\<open>WEXITSTATUS(status)\<close>\<close>

text \<open>A parsed script is a handle that only the interpreter looks into.\<close>

type_synonym AmCommandList = nat

text \<open>
  The outcomes of the calls that leave install.c. \<open>fork\<close>, \<open>pipe\<close>, \<open>fdopen\<close>, \<open>strdup\<close>
  and \<open>realloc\<close> are taken to succeed.
\<close>

record install_env =
  ensure_root_path_mounted :: "string \<Rightarrow> int"
  translate_root_path :: "string \<Rightarrow> string option"
  RSANUMWORDS :: nat
  keys_file :: "string option"       \<comment> \<open>the contents of /res/keys, None when \<open>fopen\<close> fails\<close>
  mzOpenZipArchive :: "string \<Rightarrow> int + zip_archive"    \<comment> \<open>\<open>Inl err\<close>: a non-zero return\<close>
  verify_jar_signature :: "zip_archive \<Rightarrow> RSAPublicKey list \<Rightarrow> bool"
  creat_ok :: bool                   \<comment> \<open>\<open>creat\<close> of /tmp/update_binary\<close>
  extract_ok :: bool                 \<comment> \<open>\<open>mzExtractZipEntryToFile\<close> of the binary\<close>
  child :: child_run
  malloc_ok :: "nat \<Rightarrow> bool"
  stat_size :: "string \<Rightarrow> nat option"       \<comment> \<open>\<open>stat\<close>: the file's size\<close>
  fopen_rb :: "string \<Rightarrow> string option"     \<comment> \<open>\<open>fopen\<close> for reading: the file's bytes\<close>
  remember_firmware_update :: "string \<Rightarrow> string \<Rightarrow> nat \<Rightarrow> int"
  register_package_root :: int       \<comment> \<open>the return of \<open>register_package_root(archive, path)\<close>\<close>
  parseAmendScript :: "string \<Rightarrow> AmCommandList option"
  execCommandList :: "AmCommandList \<Rightarrow> int"

definition ASSUMED_UPDATE_BINARY_NAME :: string where
  "ASSUMED_UPDATE_BINARY_NAME = ''META-INF/com/google/android/update-binary''"

definition ASSUMED_UPDATE_SCRIPT_NAME :: string where
  "ASSUMED_UPDATE_SCRIPT_NAME = ''META-INF/com/google/android/update-script''"

definition find_update_script :: "zip_archive \<Rightarrow> zip_entry option" where
  "find_update_script archive = archive ASSUMED_UPDATE_SCRIPT_NAME"

subsection \<open>The script path (install.c, read_data and handle_update_script)\<close>

text \<open>
  \<open>read_data\<close> returns a negative code, or 0 with the buffer and its length. The buffer
  has one more byte than the data, a NUL.
\<close>

definition read_data :: "install_env \<Rightarrow> zip_entry \<Rightarrow> (int + string \<times> int) \<times> event list" where
  "read_data env entry =
     (let len = int (uncompLen entry) in
      if len \<le> 0 then (Inl (- 1), [Msg (Invalid_data_length len)])
      else if \<not> malloc_ok env (nat (len + 1)) then (Inl (- 2), [Msg (Cannot_allocate_data (len + 1))])
      else if \<not> readable entry then (Inl (- 3), [Msg Data_read_error])
      else (Inr (contents entry @ [NUL], len), []))"

text \<open>\<open>memchr(buf + p, c, k)\<close>: the position in \<open>buf\<close> of the first \<open>c\<close> among \<open>k\<close> bytes from \<open>p\<close>.\<close>

definition memchr :: "string \<Rightarrow> nat \<Rightarrow> char \<Rightarrow> nat \<Rightarrow> nat option" where
  "memchr buf p c k =
     (let seg = take k (drop p buf) in
      if c \<in> set seg then Some (p + length (takeWhile (\<lambda>x. x \<noteq> c) seg)) else None)"

text \<open>
  The loop of lines 104 to 108. Pointers into the buffer are positions; NULL is None. The
  loop writes NUL over each newline it finds, so the buffer is part of the loop's state.
\<close>

function find_line :: "string \<Rightarrow> nat \<Rightarrow> nat option \<Rightarrow> nat option \<Rightarrow> int
    \<Rightarrow> string \<times> nat option \<times> nat option" where
  "find_line script_data script_len line next ret =
     (case next of
        None \<Rightarrow> (script_data, line, next)
      | Some p \<Rightarrow>
          if ret > 0 then
            (case memchr script_data p CHR 0x0A (script_len - p) of
               None \<Rightarrow> find_line script_data script_len (Some p) None (ret - 1)
             | Some q \<Rightarrow>
                 find_line (script_data[q := NUL]) script_len (Some p) (Some (q + 1)) (ret - 1))
          else (script_data, line, next))"
  by pat_completeness auto
termination
  by (relation "measure (\<lambda>(d, l, line, next, ret). nat ret)") auto

declare find_line.simps [simp del]

text \<open>The last argument of the \<open>LOGE\<close> of line 109, as \<open>%s\<close> prints it.\<close>

definition report_line :: "string \<Rightarrow> int \<Rightarrow> int \<Rightarrow> reported_line" where
  "report_line script_data script_len ret =
     (case find_line script_data (nat script_len) None (Some 0) ret of
        (buf, line, None) \<Rightarrow> Not_found
      | (buf, None, Some q) \<Rightarrow> Null_line
      | (buf, Some p, Some q) \<Rightarrow> Line (cstr (drop p buf)))"

definition handle_update_script :: "install_env \<Rightarrow> zip_entry \<Rightarrow> int \<times> event list" where
  "handle_update_script env update_script_entry =
     (case read_data env update_script_entry of
        (Inl code, ev) \<Rightarrow> (INSTALL_ERROR, ev @ [Msg Cannot_read_script])
      | (Inr (script_data, script_len), ev) \<Rightarrow>
          (case parseAmendScript env (take (nat script_len) script_data) of
             None \<Rightarrow> (INSTALL_ERROR, ev @ [Parse_script, Msg Script_syntax_error])
           | Some commands \<Rightarrow>
               let ret = execCommandList env commands in
               if ret \<noteq> 0 then
                 (INSTALL_ERROR,
                  ev @ [Parse_script, Exec_script,
                        Msg (Script_line_error ret (report_line script_data script_len ret))])
               else (INSTALL_SUCCESS, ev @ [Parse_script, Exec_script])))"

subsection \<open>The binary path (install.c, handle_firmware_update and try_update_binary)\<close>

text \<open>
  \<open>handle_firmware_update\<close>: first the source and size of the data (lines 123 to 137),
  then the buffer (142), the read (148 to 164) and the hand-over (166).
\<close>

definition firmware_source :: "install_env \<Rightarrow> string \<Rightarrow> zip_archive
    \<Rightarrow> event list + zip_entry option \<times> nat" where
  "firmware_source env filename archive =
     (if take 8 filename = ''PACKAGE:'' then
        (case archive (drop 8 filename) of
           None \<Rightarrow> Inl [Msg (Not_in_package (drop 8 filename))]
         | Some entry \<Rightarrow> Inr (Some entry, uncompLen entry))
      else
        (case stat_size env filename of
           None \<Rightarrow> Inl [Msg (Cannot_stat filename)]
         | Some sz \<Rightarrow> Inr (None, sz)))"

definition firmware_data :: "install_env \<Rightarrow> string \<Rightarrow> zip_entry option \<Rightarrow> nat
    \<Rightarrow> event list + string" where
  "firmware_data env filename entry data_size =
     (case entry of
        Some e \<Rightarrow>
          if \<not> readable e then Inl [Msg (Cannot_read_from_package (drop 8 filename))]
          else Inr (take data_size (contents e))
      | None \<Rightarrow>
          (case fopen_rb env filename of
             None \<Rightarrow> Inl [Msg (Cannot_open_file filename)]
           | Some bytes \<Rightarrow>
               if length (take data_size bytes) \<noteq> data_size then Inl [Msg Cannot_read_firmware]
               else Inr (take data_size bytes)))"

definition handle_firmware_update :: "install_env \<Rightarrow> string \<Rightarrow> string \<Rightarrow> zip_archive
    \<Rightarrow> int \<times> event list" where
  "handle_firmware_update env type filename archive =
     (case firmware_source env filename archive of
        Inl ev \<Rightarrow> (INSTALL_ERROR, ev)
      | Inr (entry, data_size) \<Rightarrow>
          if \<not> malloc_ok env data_size then (INSTALL_ERROR, [])
          else
            (case firmware_data env filename entry data_size of
               Inl ev \<Rightarrow> (INSTALL_ERROR, ev)
             | Inr data \<Rightarrow>
                 if remember_firmware_update env type data data_size \<noteq> 0
                 then (INSTALL_ERROR, [Remember_firmware type data_size, Msg (Cannot_save type)])
                 else (INSTALL_SUCCESS, [Remember_firmware type data_size])))"

text \<open>
  \<open>try_update_binary\<close>. A fault of the protocol loop ends the process: there is no result
  then, and the trace stops at the start of the child.
\<close>

definition try_update_binary :: "install_env \<Rightarrow> string \<Rightarrow> zip_archive
    \<Rightarrow> (fault + int) \<times> event list" where
  "try_update_binary env path archive =
     (case archive ASSUMED_UPDATE_BINARY_NAME of
        None \<Rightarrow> (Inr INSTALL_CORRUPT, [])
      | Some binary_entry \<Rightarrow>
          if \<not> creat_ok env then (Inr 1, [Msg (Cannot_create ''/tmp/update_binary'')])
          else if \<not> extract_ok env then (Inr 1, [Extract_binary, Msg Cannot_copy])
          else
            (case protocol_loop (child_output (child env)) of
               Inl f \<Rightarrow> (Inl f, [Extract_binary, Run_binary path])
             | Inr st \<Rightarrow>
                 let ev = [Extract_binary, Run_binary path] @ shown st in
                 if \<not> exited (child env) \<or> exit_status (child env) \<noteq> 0
                 then (Inr INSTALL_ERROR, ev @ [Msg (Child_failed path)])
                 else
                   (case firmware_type st of
                      None \<Rightarrow> (Inr INSTALL_SUCCESS, ev)
                    | Some type \<Rightarrow>
                        (case firmware_filename st of
                           None \<Rightarrow> (Inl Null_pointer, ev)
                         | Some filename \<Rightarrow>
                             (case handle_firmware_update env type filename archive of
                                (result, ev') \<Rightarrow> (Inr result, ev @ ev'))))))"

subsection \<open>The dispatch (install.c, handle_update_package and install_package)\<close>

definition handle_update_package :: "install_env \<Rightarrow> string \<Rightarrow> zip_archive
    \<Rightarrow> (fault + int) \<times> event list" where
  "handle_update_package env path archive =
     (case try_update_binary env path archive of
        (Inl f, ev) \<Rightarrow> (Inl f, Msg Installing # ev)
      | (Inr result, ev) \<Rightarrow>
          let ev1 = Msg Installing # ev @ [Unregister_package_root] in
          if result \<noteq> INSTALL_SUCCESS \<and> result \<noteq> INSTALL_ERROR then
            (case find_update_script archive of
               None \<Rightarrow> (Inr INSTALL_CORRUPT, ev1 @ [Msg No_update_script])
             | Some script_entry \<Rightarrow>
                 if register_package_root env < 0
                 then (Inr INSTALL_ERROR, ev1 @ [Register_package_root, Msg Cannot_set_up_environment])
                 else
                   (case handle_update_script env script_entry of
                      (result', ev2) \<Rightarrow>
                        (Inr result', ev1 @ [Register_package_root] @ ev2 @ [Unregister_package_root])))
          else (Inr result, ev1))"

definition install_package :: "install_env \<Rightarrow> string \<Rightarrow> (fault + int) \<times> event list" where
  "install_package env root_path =
     (if ensure_root_path_mounted env root_path \<noteq> 0
      then (Inr INSTALL_CORRUPT, [Msg Preparing, Msg (Cannot_mount root_path)])
      else
        (case translate_root_path env root_path of
           None \<Rightarrow> (Inr INSTALL_CORRUPT, [Msg Preparing, Msg (Bad_path root_path)])
         | Some path \<Rightarrow>
             (case load_keys (RSANUMWORDS env) (keys_file env) of
                None \<Rightarrow> (Inr INSTALL_CORRUPT, [Msg Preparing, Msg Opening, Msg Cannot_load_keys])
              | Some loadedKeys \<Rightarrow>
                  (case mzOpenZipArchive env path of
                     Inl err \<Rightarrow>
                       (Inr INSTALL_CORRUPT,
                        [Msg Preparing, Msg Opening, Msg Verifying, Msg (Cannot_open_package path err)])
                   | Inr archive \<Rightarrow>
                       if \<not> verify_jar_signature env archive loadedKeys
                       then (Inr INSTALL_CORRUPT,
                             [Msg Preparing, Msg Opening, Msg Verifying, Open_archive path,
                              Verify_signature, Msg Signature_failed])
                       else
                         (case handle_update_package env path archive of
                            (Inl f, ev) \<Rightarrow>
                              (Inl f,
                               [Msg Preparing, Msg Opening, Msg Verifying, Open_archive path,
                                Verify_signature] @ ev)
                          | (Inr status, ev) \<Rightarrow>
                              (Inr status,
                               [Msg Preparing, Msg Opening, Msg Verifying, Open_archive path,
                                Verify_signature] @ ev @ [Close_archive]))))))"

text \<open>
  The events only the script path of \<open>handle_update_package\<close> (lines 324 to 337) gives rise
  to: it reports a missing script or registers the package root, and then the script is
  parsed and run. The events of a dispatch are those of either install path.
\<close>

fun script_path :: "event \<Rightarrow> bool" where
  "script_path (Msg No_update_script) = True"
| "script_path Register_package_root = True"
| "script_path Parse_script = True"
| "script_path Exec_script = True"
| "script_path e = False"

fun dispatched :: "event \<Rightarrow> bool" where
  "dispatched (Msg Installing) = True"
| "dispatched Extract_binary = True"
| "dispatched (Run_binary path) = True"
| "dispatched Register_package_root = True"
| "dispatched Unregister_package_root = True"
| "dispatched Parse_script = True"
| "dispatched Exec_script = True"
| "dispatched (Remember_firmware type k) = True"
| "dispatched e = False"

text \<open>
  The firmware payload is read and persisted: its source is found, the buffer is there,
  the read delivers all of it, and \<open>remember_firmware_update\<close> returns 0.
\<close>

definition payload_persisted :: "install_env \<Rightarrow> string \<Rightarrow> string \<Rightarrow> zip_archive \<Rightarrow> bool" where
  "payload_persisted env type filename archive =
     (case firmware_source env filename archive of
        Inl ev \<Rightarrow> False
      | Inr (entry, data_size) \<Rightarrow>
          malloc_ok env data_size \<and>
          (case firmware_data env filename entry data_size of
             Inl ev \<Rightarrow> False
           | Inr data \<Rightarrow> remember_firmware_update env type data data_size = 0))"

text \<open>A script written out from its lines, each followed by a newline.\<close>

definition script_lines :: "string list \<Rightarrow> string" where
  "script_lines ls = concat (map (\<lambda>l. l @ ''\<newline>'') ls)"

subsection \<open>Sample runs\<close>

text \<open>
  An environment in which every collaborator succeeds, two words per key, a key file with
  one key, and three packages: one with an update binary, one with a script only, and an
  empty one.
\<close>

definition binary_package :: zip_archive where
  "binary_package =
     map_of [(ASSUMED_UPDATE_BINARY_NAME, \<lparr>contents = ''#!'', readable = True\<rparr>),
             (ASSUMED_UPDATE_SCRIPT_NAME, \<lparr>contents = ''a\<newline>b\<newline>c'', readable = True\<rparr>),
             (''radio.img'', \<lparr>contents = ''RADIO'', readable = True\<rparr>)]"

definition script_package :: zip_archive where
  "script_package =
     map_of [(ASSUMED_UPDATE_SCRIPT_NAME, \<lparr>contents = ''a\<newline>b\<newline>c'', readable = True\<rparr>)]"

definition empty_package :: zip_archive where
  "empty_package = map_of []"

definition sample_env :: install_env where
  "sample_env =
     \<lparr>ensure_root_path_mounted = (\<lambda>root_path. 0),
      translate_root_path = (\<lambda>root_path. Some ''/sdcard/update.zip''),
      RSANUMWORDS = 2,
      keys_file = Some ''{2,0x11,{1,2},{3,4}}'',
      mzOpenZipArchive = (\<lambda>path. Inr binary_package),
      verify_jar_signature = (\<lambda>archive keys. True),
      creat_ok = True,
      extract_ok = True,
      child = \<lparr>child_output = ''firmware radio PACKAGE:radio.img\<newline>'', exited = True,
               exit_status = 0\<rparr>,
      malloc_ok = (\<lambda>k. True),
      stat_size = (\<lambda>filename. None),
      fopen_rb = (\<lambda>filename. None),
      remember_firmware_update = (\<lambda>type data k. 0),
      register_package_root = 0,
      parseAmendScript = (\<lambda>script. Some 0),
      execCommandList = (\<lambda>commands. 3)\<rparr>"

section \<open>The recovery state: recovery.c\<close>

subsection \<open>The control block, the files and the log\<close>

text \<open>
  The bootloader message has three character arrays, declared in bootloader.h, which is
  not among the sources; their sizes are parameters. A field is modelled by the bytes
  from the start of the array; the bytes behind them are NUL. The zeroed message has three
  empty fields.
\<close>

record bootloader_message =
  command :: string
  status :: string
  recovery :: string
















subsection \<open>get_args\<close>














subsection \<open>finish_recovery\<close>





section \<open>The key file as the specification describes it\<close>

text \<open>
  The grammar of the key file: records
  \<open>{ len , n0inv , { n_0 , ... } , { rr_0 , ... } }\<close> separated by commas, white space
  allowed in front of every number and every punctuation character and at the end, no
  comma after the last record. The definitions below write such a file out from its
  parts; they follow the grammar, not the code.

  A number is written as C writes an integer constant: an optional sign, then decimal
  digits not starting with 0, or 0 and octal digits, or 0x or 0X and hexadecimal digits.
  It has 512 characters at most: every number that fits a field of a key can be written
  so, and the conversion of the BSD C library reads no more characters than that for one
  number.
\<close>

datatype radix = Decimal | Octal | Hex_lower | Hex_upper

datatype literal = Literal string radix string

fun radix_base :: "radix \<Rightarrow> nat" where
  "radix_base Decimal = 10"
| "radix_base Octal = 8"
| "radix_base Hex_lower = 16"
| "radix_base Hex_upper = 16"

fun radix_prefix :: "radix \<Rightarrow> string" where
  "radix_prefix Decimal = []"
| "radix_prefix Octal = ''0''"
| "radix_prefix Hex_lower = ''0x''"
| "radix_prefix Hex_upper = ''0X''"

fun literal_text :: "literal \<Rightarrow> string" where
  "literal_text (Literal sg rd ds) = sg @ radix_prefix rd @ ds"

fun literal_value :: "literal \<Rightarrow> int" where
  "literal_value (Literal sg rd ds) =
     (if sg = ''-'' then - int (digits_value (radix_base rd) ds)
      else int (digits_value (radix_base rd) ds))"

fun valid_literal :: "literal \<Rightarrow> bool" where
  "valid_literal (Literal sg rd ds) \<longleftrightarrow>
     (sg = [] \<or> sg = ''+'' \<or> sg = ''-'') \<and>
     list_all (is_digit (radix_base rd)) ds \<and>
     (case rd of
        Decimal \<Rightarrow> ds \<noteq> [] \<and> hd ds \<noteq> CHR ''0''
      | Octal \<Rightarrow> True
      | Hex_lower \<Rightarrow> ds \<noteq> []
      | Hex_upper \<Rightarrow> ds \<noteq> []) \<and>
     length (sg @ radix_prefix rd @ ds) \<le> 512"

text \<open>
  A number in its place: the white space in front of the punctuation character that
  introduces it, the white space in front of the number, and the number.
\<close>

type_synonym word_source = "string \<times> string \<times> literal"

fun word_text :: "char \<Rightarrow> word_source \<Rightarrow> string" where
  "word_text sep (a, b, l) = a @ [sep] @ b @ literal_text l"

fun word_value :: "word_source \<Rightarrow> int" where
  "word_value (a, b, l) = literal_value l"

text \<open>
  The number that \<open>%i\<close> makes of a number that is written out: its value within the range
  of \<open>strtoimax\<close>.
\<close>

definition word_read :: "word_source \<Rightarrow> int" where
  "word_read w = strtoimax_range (word_value w)"

fun valid_word :: "word_source \<Rightarrow> bool" where
  "valid_word (a, b, l) \<longleftrightarrow> list_all isspace a \<and> list_all isspace b \<and> valid_literal l"

text \<open>An array: the first number behind the opening brace, the others behind commas.\<close>

fun words_text :: "word_source list \<Rightarrow> string" where
  "words_text [] = []"
| "words_text (w # ws) = word_text CHR ''{'' w @ concat (map (word_text CHR '','') ws)"

text \<open>A record, with the white space in front of its other punctuation and behind it.\<close>

record key_source =
  len_source :: word_source
  n0inv_source :: word_source
  gap_n :: string            \<comment> \<open>in front of the comma before the first array\<close>
  n_source :: "word_source list"
  gap_n_close :: string      \<comment> \<open>in front of the brace that closes the first array\<close>
  gap_rr :: string           \<comment> \<open>in front of the comma between the arrays\<close>
  rr_source :: "word_source list"
  gap_rr_close :: string     \<comment> \<open>in front of the brace that closes the second array\<close>
  gap_close :: string        \<comment> \<open>in front of the brace that closes the record\<close>
  gap_after :: string        \<comment> \<open>behind the record\<close>

definition key_text :: "key_source \<Rightarrow> string" where
  "key_text ks =
     word_text CHR ''{'' (len_source ks) @ word_text CHR '','' (n0inv_source ks) @
     gap_n ks @ '','' @ words_text (n_source ks) @ gap_n_close ks @ ''}'' @
     gap_rr ks @ '','' @ words_text (rr_source ks) @ gap_rr_close ks @ ''}'' @
     gap_close ks @ ''}'' @ gap_after ks"

text \<open>
  The shape of a record for keys of \<open>nwords\<close> words: white space where white space is
  allowed, numbers where numbers are expected, and \<open>nwords\<close> numbers in each array.
\<close>

definition record_shape :: "nat \<Rightarrow> key_source \<Rightarrow> bool" where
  "record_shape nwords ks \<longleftrightarrow>
     valid_word (len_source ks) \<and> valid_word (n0inv_source ks) \<and>
     list_all valid_word (n_source ks) \<and> list_all valid_word (rr_source ks) \<and>
     length (n_source ks) = nwords \<and> length (rr_source ks) = nwords \<and>
     list_all isspace (gap_n ks) \<and> list_all isspace (gap_n_close ks) \<and>
     list_all isspace (gap_rr ks) \<and> list_all isspace (gap_rr_close ks) \<and>
     list_all isspace (gap_close ks) \<and> list_all isspace (gap_after ks)"

text \<open>
  A well-formed record, as the specification has it: a record of that shape whose \<open>len\<close>
  is the number \<open>nwords\<close>.
\<close>

definition valid_key_source :: "nat \<Rightarrow> key_source \<Rightarrow> bool" where
  "valid_key_source nwords ks \<longleftrightarrow>
     record_shape nwords ks \<and> word_value (len_source ks) = int nwords"

text \<open>
  A record of that shape whose \<open>len\<close> is \<open>nwords\<close> once \<open>%i\<close> has stored it in the int,
  whatever number is written in the file.
\<close>

definition stored_len_matches :: "nat \<Rightarrow> key_source \<Rightarrow> bool" where
  "stored_len_matches nwords ks \<longleftrightarrow>
     record_shape nwords ks \<and> store_int (word_read (len_source ks)) = int nwords"

text \<open>
  The key a record denotes: \<open>len\<close> as the int that is stored, every other number as the
  32-bit word that is stored.
\<close>

definition key_of :: "key_source \<Rightarrow> RSAPublicKey" where
  "key_of ks =
     \<lparr>len = store_int (word_read (len_source ks)),
      n0inv = store_word (word_read (n0inv_source ks)),
      n = map (\<lambda>w. store_word (word_read w)) (n_source ks),
      rr = map (\<lambda>w. store_word (word_read w)) (rr_source ks)\<rparr>"

text \<open>A file of records, and records each followed by a comma, as in front of a further one.\<close>

fun file_text :: "key_source list \<Rightarrow> string" where
  "file_text [] = []"
| "file_text [ks] = key_text ks"
| "file_text (ks # kss) = key_text ks @ '','' @ file_text kss"

definition records_text :: "key_source list \<Rightarrow> string" where
  "records_text kss = concat (map (\<lambda>ks. key_text ks @ '','') kss)"

text \<open>
  The numeric fields of a record, and the text of a record up to the place where a field's
  number is expected.
\<close>

datatype field = Len_field | N0inv_field | N_field nat | RR_field nat

fun field_of :: "nat \<Rightarrow> field \<Rightarrow> bool" where
  "field_of nwords (N_field i) \<longleftrightarrow> i < nwords"
| "field_of nwords (RR_field i) \<longleftrightarrow> i < nwords"
| "field_of nwords f \<longleftrightarrow> True"

definition words_upto :: "word_source list \<Rightarrow> nat \<Rightarrow> string" where
  "words_upto ws i =
     (if i = 0 then fst (ws ! 0) @ ''{''
      else words_text (take i ws) @ fst (ws ! i) @ '','')"

fun key_text_upto :: "field \<Rightarrow> key_source \<Rightarrow> string" where
  "key_text_upto Len_field ks = fst (len_source ks) @ ''{''"
| "key_text_upto N0inv_field ks =
     word_text CHR ''{'' (len_source ks) @ fst (n0inv_source ks) @ '',''"
| "key_text_upto (N_field i) ks =
     word_text CHR ''{'' (len_source ks) @ word_text CHR '','' (n0inv_source ks) @
     gap_n ks @ '','' @ words_upto (n_source ks) i"
| "key_text_upto (RR_field i) ks =
     word_text CHR ''{'' (len_source ks) @ word_text CHR '','' (n0inv_source ks) @
     gap_n ks @ '','' @ words_text (n_source ks) @ gap_n_close ks @ ''}'' @
     gap_rr ks @ '','' @ words_upto (rr_source ks) i"

text \<open>
  Text that is no number: behind white space and an optional sign there is no decimal
  digit. Text at which a number ends: the end of the input, white space, a comma or a
  closing brace.
\<close>

definition unparsable :: "string \<Rightarrow> bool" where
  "unparsable junk =
     (case skip_space junk of
        [] \<Rightarrow> True
      | c # r \<Rightarrow>
          if c = CHR ''-'' \<or> c = CHR ''+''
          then (case r of [] \<Rightarrow> True | d # r' \<Rightarrow> \<not> is_digit 10 d)
          else \<not> is_digit 10 c)"

definition boundary :: "string \<Rightarrow> bool" where
  "boundary s = (case s of [] \<Rightarrow> True | c # r \<Rightarrow> isspace c \<or> c = CHR '','' \<or> c = CHR ''}'')"

text \<open>
  Two records for keys of two words: the first as the key tool prints it, the second with
  white space, signs and the three bases.
\<close>

definition sample_key_1 :: key_source where
  "sample_key_1 =
     \<lparr>len_source = ([], [], Literal [] Decimal ''2''),
      n0inv_source = ([], [], Literal [] Hex_lower ''11''),
      gap_n = [],
      n_source = [([], [], Literal [] Decimal ''1''), ([], [], Literal ''-'' Decimal ''2'')],
      gap_n_close = [],
      gap_rr = [],
      rr_source = [([], [], Literal [] Decimal ''3''), ([], [], Literal [] Decimal ''4'')],
      gap_rr_close = [],
      gap_close = [],
      gap_after = []\<rparr>"

definition sample_key_2 :: key_source where
  "sample_key_2 =
     \<lparr>len_source = (''\<newline>'', '' '', Literal ''+'' Decimal ''2''),
      n0inv_source = ('' '', '' '', Literal [] Hex_upper ''fF''),
      gap_n = '' '',
      n_source = [([], [], Literal [] Octal ''17''), ('' '', [], Literal [] Octal [])],
      gap_n_close = '' '',
      gap_rr = [],
      rr_source = [([], [], Literal ''-'' Hex_lower ''a''), ([], '' '', Literal [] Decimal ''9'')],
      gap_rr_close = [],
      gap_close = '' '',
      gap_after = ''\<newline>''\<rparr>"

text \<open>
  Two records like the first one: in the third \<open>len\<close> is written as \<open>2 ^ 32 + 2\<close>; in the
  fourth the first array holds \<open>2 ^ 63\<close> and \<open>- 2 ^ 63 - 1\<close>, the first numbers outside
  the range of 64 bits on either side.
\<close>

definition sample_key_3 :: key_source where
  "sample_key_3 = sample_key_1\<lparr>len_source := ([], [], Literal [] Decimal ''4294967298'')\<rparr>"

definition sample_key_4 :: key_source where
  "sample_key_4 =
     sample_key_1
       \<lparr>n_source := [([], [], Literal [] Decimal ''9223372036854775808''),
                     ([], [], Literal ''-'' Decimal ''9223372036854775809'')]\<rparr>"


section \<open>Properties\<close>

subsection \<open>Tokens\<close>

lemma tokens_None: "strtok delims s = (None, r) \<Longrightarrow> tokens delims s = []"
  by (subst tokens.simps) simp




subsection \<open>The protocol loop\<close>















subsection \<open>What the protocol loop leaves behind\<close>




lemma protocol_line_shown:
  assumes "protocol_line buffer st = Inr st'" and "filter script_path (shown st) = []"
  shows "filter script_path (shown st') = []"
  using assms
  by (auto simp: protocol_line_def show_event_def
      split: prod.splits option.splits if_splits)

lemma process_lines_shown:
  assumes "process_lines lines st = Inr st'" and "filter script_path (shown st) = []"
  shows "filter script_path (shown st') = []"
  using assms
proof (induction lines arbitrary: st)
  case Nil
  then show ?case by simp
next
  case (Cons b lines)
  from Cons.prems(1) obtain st1 where s1: "protocol_line b st = Inr st1"
    and rest: "process_lines lines st1 = Inr st'"
    by (auto split: sum.splits)
  from Cons.IH [OF rest protocol_line_shown [OF s1 Cons.prems(2)]] show ?case .
qed

lemma protocol_loop_shown:
  assumes "protocol_loop from_child = Inr st"
  shows "filter script_path (shown st) = []"
  using process_lines_shown [of "fgets_all 1024 from_child" protocol_start st] assms
  by (simp add: protocol_loop_def protocol_start_def)

subsection \<open>The firmware deferral step\<close>

lemma handle_firmware_update_result:
  "fst (handle_firmware_update env type filename archive) =
     (if payload_persisted env type filename archive then INSTALL_SUCCESS else INSTALL_ERROR)"
  by (auto simp: handle_firmware_update_def payload_persisted_def
      split: sum.splits prod.splits)

lemma handle_firmware_update_events:
  "filter script_path (snd (handle_firmware_update env type filename archive)) = []"
  by (auto simp: handle_firmware_update_def firmware_source_def firmware_data_def
      split: sum.splits prod.splits option.splits if_splits)

subsection \<open>The binary path\<close>

lemma try_update_binary_absent:
  "archive ASSUMED_UPDATE_BINARY_NAME = None \<Longrightarrow>
     try_update_binary env path archive = (Inr INSTALL_CORRUPT, [])"
  by (simp add: try_update_binary_def)

lemma try_update_binary_present:
  assumes "archive ASSUMED_UPDATE_BINARY_NAME = Some binary_entry"
  shows "fst (try_update_binary env path archive) \<in>
           {Inl Null_pointer, Inr INSTALL_SUCCESS, Inr INSTALL_ERROR}"
proof -
  have f: "x = Null_pointer" for x :: fault by (cases x) simp
  have h: "handle_firmware_update env t f archive = (r, ev) \<Longrightarrow>
      r = INSTALL_SUCCESS \<or> r = INSTALL_ERROR" for t f r ev
    using handle_firmware_update_result [of env t f archive] by (simp split: if_splits)
  show ?thesis
    using assms
    by (auto simp: try_update_binary_def Let_def INSTALL_ERROR_def f
        split: sum.splits option.splits prod.splits if_splits dest: h)
qed

lemma try_update_binary_events:
  "filter script_path (snd (try_update_binary env path archive)) = []"
proof -
  have "filter script_path (snd (handle_firmware_update env t f archive)) = []" for t f
    by (rule handle_firmware_update_events)
  then have h: "handle_firmware_update env t f archive = (r, ev) \<Longrightarrow> filter script_path ev = []"
    for t f r ev
    by (metis snd_conv)
  show ?thesis
    by (auto simp: try_update_binary_def Let_def
        split: sum.splits option.splits prod.splits if_splits
        dest: protocol_loop_shown h)
qed

subsection \<open>The dispatch\<close>

lemma handle_update_package_present:
  assumes "archive ASSUMED_UPDATE_BINARY_NAME = Some binary_entry"
  shows "fst (handle_update_package env path archive) = fst (try_update_binary env path archive)"
    and "filter script_path (snd (handle_update_package env path archive)) = []"
proof -
  obtain r ev where t: "try_update_binary env path archive = (r, ev)"
    by (cases "try_update_binary env path archive")
  from try_update_binary_present [of archive binary_entry env path] assms t
  have r: "r = Inl Null_pointer \<or> r = Inr INSTALL_SUCCESS \<or> r = Inr INSTALL_ERROR"
    by simp
  from try_update_binary_events [of env path archive] t
  have ev: "filter script_path ev = []" by simp
  from r t show "fst (handle_update_package env path archive) = fst (try_update_binary env path archive)"
    by (auto simp: handle_update_package_def Let_def)
  from r t ev show "filter script_path (snd (handle_update_package env path archive)) = []"
    by (auto simp: handle_update_package_def Let_def)
qed

lemma handle_update_package_absent:
  assumes "archive ASSUMED_UPDATE_BINARY_NAME = None"
  shows "handle_update_package env path archive =
     (case archive ASSUMED_UPDATE_SCRIPT_NAME of
        None \<Rightarrow>
          (Inr INSTALL_CORRUPT, [Msg Installing, Unregister_package_root, Msg No_update_script])
      | Some script_entry \<Rightarrow>
          if register_package_root env < 0
          then (Inr INSTALL_ERROR,
                [Msg Installing, Unregister_package_root, Register_package_root,
                 Msg Cannot_set_up_environment])
          else (Inr (fst (handle_update_script env script_entry)),
                [Msg Installing, Unregister_package_root, Register_package_root] @
                snd (handle_update_script env script_entry) @ [Unregister_package_root]))"
  using try_update_binary_absent [of archive env path] assms
  by (auto simp: handle_update_package_def find_update_script_def Let_def
      INSTALL_CORRUPT_def INSTALL_SUCCESS_def INSTALL_ERROR_def
      split: option.splits prod.splits)

text \<open>
  Claim C1. \<open>handle_update_package\<close> runs the binary path first. When the archive has the
  binary entry, the result is the binary path's own result, which is SUCCESS or ERROR
  (or the process has ended in the protocol loop), and nothing of the script path
  happens; a binary that cannot be created or extracted, and a child that fails, give
  ERROR. Only when the binary entry is absent is the script looked for: with no script
  entry either the result is CORRUPT, and with one the result is that of the script path.
\<close>

theorem binary_path_first_script_path_only_without_binary:
  "(archive ASSUMED_UPDATE_BINARY_NAME \<noteq> None \<longrightarrow>
      fst (handle_update_package env path archive) = fst (try_update_binary env path archive) \<and>
      fst (handle_update_package env path archive) \<in>
        {Inl Null_pointer, Inr INSTALL_SUCCESS, Inr INSTALL_ERROR} \<and>
      filter script_path (snd (handle_update_package env path archive)) = []) \<and>
   (archive ASSUMED_UPDATE_BINARY_NAME \<noteq> None \<and> (\<not> creat_ok env \<or> \<not> extract_ok env) \<longrightarrow>
      fst (handle_update_package env path archive) = Inr INSTALL_ERROR) \<and>
   (archive ASSUMED_UPDATE_BINARY_NAME \<noteq> None \<and> creat_ok env \<and> extract_ok env \<and>
    protocol_loop (child_output (child env)) \<noteq> Inl Null_pointer \<and>
    (\<not> exited (child env) \<or> exit_status (child env) \<noteq> 0) \<longrightarrow>
      fst (handle_update_package env path archive) = Inr INSTALL_ERROR) \<and>
   (archive ASSUMED_UPDATE_BINARY_NAME = None \<and> archive ASSUMED_UPDATE_SCRIPT_NAME = None \<longrightarrow>
      fst (handle_update_package env path archive) = Inr INSTALL_CORRUPT) \<and>
   (archive ASSUMED_UPDATE_BINARY_NAME = None \<and>
    archive ASSUMED_UPDATE_SCRIPT_NAME = Some script_entry \<longrightarrow>
      fst (handle_update_package env path archive) =
        (if register_package_root env < 0 then Inr INSTALL_ERROR
         else Inr (fst (handle_update_script env script_entry))) \<and>
      filter script_path (snd (handle_update_package env path archive)) \<noteq> [])"
proof (intro conjI impI)
  assume "archive ASSUMED_UPDATE_BINARY_NAME \<noteq> None"
  then obtain b where b: "archive ASSUMED_UPDATE_BINARY_NAME = Some b" by auto
  show "fst (handle_update_package env path archive) = fst (try_update_binary env path archive)"
    using handle_update_package_present(1) [of archive b env path] b by simp
  then show "fst (handle_update_package env path archive) \<in>
        {Inl Null_pointer, Inr INSTALL_SUCCESS, Inr INSTALL_ERROR}"
    using try_update_binary_present [of archive b env path] b by simp
  show "filter script_path (snd (handle_update_package env path archive)) = []"
    using handle_update_package_present(2) [of archive b env path] b by simp
next
  assume a: "archive ASSUMED_UPDATE_BINARY_NAME \<noteq> None \<and> (\<not> creat_ok env \<or> \<not> extract_ok env)"
  then obtain b where b: "archive ASSUMED_UPDATE_BINARY_NAME = Some b" by auto
  from a b have "fst (try_update_binary env path archive) = Inr INSTALL_ERROR"
    by (auto simp: try_update_binary_def INSTALL_ERROR_def)
  with handle_update_package_present(1) [of archive b env path] b
  show "fst (handle_update_package env path archive) = Inr INSTALL_ERROR" by simp
next
  assume a: "archive ASSUMED_UPDATE_BINARY_NAME \<noteq> None \<and> creat_ok env \<and> extract_ok env \<and>
    protocol_loop (child_output (child env)) \<noteq> Inl Null_pointer \<and>
    (\<not> exited (child env) \<or> exit_status (child env) \<noteq> 0)"
  then obtain b where b: "archive ASSUMED_UPDATE_BINARY_NAME = Some b" by auto
  have f: "x = Null_pointer" for x :: fault by (cases x) simp
  from a obtain st where "protocol_loop (child_output (child env)) = Inr st"
    by (cases "protocol_loop (child_output (child env))") (auto simp: f)
  with a b have "fst (try_update_binary env path archive) = Inr INSTALL_ERROR"
    by (auto simp: try_update_binary_def Let_def)
  with handle_update_package_present(1) [of archive b env path] b
  show "fst (handle_update_package env path archive) = Inr INSTALL_ERROR" by simp
next
  assume "archive ASSUMED_UPDATE_BINARY_NAME = None \<and> archive ASSUMED_UPDATE_SCRIPT_NAME = None"
  then show "fst (handle_update_package env path archive) = Inr INSTALL_CORRUPT"
    by (simp add: handle_update_package_absent)
next
  assume a: "archive ASSUMED_UPDATE_BINARY_NAME = None \<and>
    archive ASSUMED_UPDATE_SCRIPT_NAME = Some script_entry"
  then show "fst (handle_update_package env path archive) =
        (if register_package_root env < 0 then Inr INSTALL_ERROR
         else Inr (fst (handle_update_script env script_entry)))"
    by (simp add: handle_update_package_absent)
  from a show "filter script_path (snd (handle_update_package env path archive)) \<noteq> []"
    by (simp add: handle_update_package_absent)
qed

text \<open>
  Three runs: a package with both entries whose binary cannot be extracted (ERROR, and
  the script is not touched), an empty package (CORRUPT), and a package with a script
  only (the script path runs; here the interpreter fails, which gives ERROR).
\<close>

lemma sample_packages:
  "binary_package ASSUMED_UPDATE_BINARY_NAME \<noteq> None"
  "binary_package ASSUMED_UPDATE_SCRIPT_NAME \<noteq> None"
  "empty_package ASSUMED_UPDATE_BINARY_NAME = None"
  "empty_package ASSUMED_UPDATE_SCRIPT_NAME = None"
  "script_package ASSUMED_UPDATE_BINARY_NAME = None"
  "script_package ASSUMED_UPDATE_SCRIPT_NAME = Some \<lparr>contents = ''a\<newline>b\<newline>c'', readable = True\<rparr>"
  by (simp_all add: binary_package_def empty_package_def script_package_def
      ASSUMED_UPDATE_BINARY_NAME_def ASSUMED_UPDATE_SCRIPT_NAME_def)

lemma sample_script_result:
  "fst (handle_update_script sample_env \<lparr>contents = ''a\<newline>b\<newline>c'', readable = True\<rparr>) = INSTALL_ERROR"
  by (simp add: handle_update_script_def read_data_def sample_env_def uncompLen_def Let_def)

theorem binary_path_first_script_path_only_without_binary_witness:
  "binary_package ASSUMED_UPDATE_BINARY_NAME \<noteq> None \<and>
   binary_package ASSUMED_UPDATE_SCRIPT_NAME \<noteq> None \<and>
   \<not> extract_ok (sample_env\<lparr>extract_ok := False\<rparr>) \<and>
   fst (handle_update_package (sample_env\<lparr>extract_ok := False\<rparr>) ''/sdcard/update.zip''
     binary_package) = Inr INSTALL_ERROR \<and>
   filter script_path (snd (handle_update_package (sample_env\<lparr>extract_ok := False\<rparr>)
     ''/sdcard/update.zip'' binary_package)) = [] \<and>
   empty_package ASSUMED_UPDATE_BINARY_NAME = None \<and>
   empty_package ASSUMED_UPDATE_SCRIPT_NAME = None \<and>
   fst (handle_update_package sample_env ''/sdcard/update.zip'' empty_package) =
     Inr INSTALL_CORRUPT \<and>
   script_package ASSUMED_UPDATE_BINARY_NAME = None \<and>
   script_package ASSUMED_UPDATE_SCRIPT_NAME =
     Some \<lparr>contents = ''a\<newline>b\<newline>c'', readable = True\<rparr> \<and>
   fst (handle_update_package sample_env ''/sdcard/update.zip'' script_package) =
     Inr INSTALL_ERROR"
proof -
  have x: "\<not> extract_ok (sample_env\<lparr>extract_ok := False\<rparr>)" by simp
  have r: "\<not> register_package_root sample_env < 0" by (simp add: sample_env_def)
  note one = binary_path_first_script_path_only_without_binary
    [of binary_package "sample_env\<lparr>extract_ok := False\<rparr>" "''/sdcard/update.zip''"]
  note two = binary_path_first_script_path_only_without_binary
    [of empty_package sample_env "''/sdcard/update.zip''"]
  note three = binary_path_first_script_path_only_without_binary
    [of script_package sample_env "''/sdcard/update.zip''"
        "\<lparr>contents = ''a\<newline>b\<newline>c'', readable = True\<rparr>"]
  from one sample_packages(1) x
  have a: "fst (handle_update_package (sample_env\<lparr>extract_ok := False\<rparr>) ''/sdcard/update.zip''
     binary_package) = Inr INSTALL_ERROR"
    and b: "filter script_path (snd (handle_update_package (sample_env\<lparr>extract_ok := False\<rparr>)
     ''/sdcard/update.zip'' binary_package)) = []"
    by blast+
  from two sample_packages(3,4)
  have c: "fst (handle_update_package sample_env ''/sdcard/update.zip'' empty_package) =
     Inr INSTALL_CORRUPT"
    by blast
  from three sample_packages(5,6) r sample_script_result
  have d: "fst (handle_update_package sample_env ''/sdcard/update.zip'' script_package) =
     Inr INSTALL_ERROR"
    by simp
  from sample_packages x a b c d show ?thesis by simp
qed





text \<open>
  Claim C2. When the file system of \<open>root_path\<close> cannot be mounted, the path cannot be
  resolved, \<open>load_keys\<close> returns no keys, the archive cannot be opened, or the signature
  does not verify, \<open>install_package\<close> returns CORRUPT and its trace holds no event of a
  dispatch: neither install path has been entered.
\<close>

theorem install_package_corrupt_before_dispatch:
  assumes "ensure_root_path_mounted env root_path \<noteq> 0 \<or>
     translate_root_path env root_path = None \<or>
     load_keys (RSANUMWORDS env) (keys_file env) = None \<or>
     (\<exists>path err. translate_root_path env root_path = Some path \<and>
        mzOpenZipArchive env path = Inl err) \<or>
     (\<exists>path archive keys. translate_root_path env root_path = Some path \<and>
        load_keys (RSANUMWORDS env) (keys_file env) = Some keys \<and>
        mzOpenZipArchive env path = Inr archive \<and>
        \<not> verify_jar_signature env archive keys)"
  shows "fst (install_package env root_path) = Inr INSTALL_CORRUPT \<and>
         filter dispatched (snd (install_package env root_path)) = []"
  using assms
  by (auto simp: install_package_def split: option.splits sum.splits)

lemma sample_keys:
  "load_keys 2 (Some ''{2,0x11,{1,2},{3,4}}'') =
     Some [\<lparr>len = 2, n0inv = 17, n = [1, 2], rr = [3, 4]\<rparr>]"
  by code_simp

lemma load_keys_empty_file: "load_keys nwords (Some '''') = None"
  by (simp add: load_keys_def load_keys_loop.simps scan_key_def scan_head_def lit_def
      skip_space_def match_char_def)

theorem install_package_corrupt_before_dispatch_witness:
  "translate_root_path (sample_env\<lparr>verify_jar_signature := \<lambda>archive keys. False\<rparr>)
     ''SDCARD:update.zip'' = Some ''/sdcard/update.zip'' \<and>
   load_keys (RSANUMWORDS (sample_env\<lparr>verify_jar_signature := \<lambda>archive keys. False\<rparr>))
     (keys_file (sample_env\<lparr>verify_jar_signature := \<lambda>archive keys. False\<rparr>)) =
     Some [\<lparr>len = 2, n0inv = 17, n = [1, 2], rr = [3, 4]\<rparr>] \<and>
   mzOpenZipArchive (sample_env\<lparr>verify_jar_signature := \<lambda>archive keys. False\<rparr>)
     ''/sdcard/update.zip'' = Inr binary_package \<and>
   \<not> verify_jar_signature (sample_env\<lparr>verify_jar_signature := \<lambda>archive keys. False\<rparr>)
     binary_package [\<lparr>len = 2, n0inv = 17, n = [1, 2], rr = [3, 4]\<rparr>] \<and>
   fst (install_package (sample_env\<lparr>verify_jar_signature := \<lambda>archive keys. False\<rparr>)
     ''SDCARD:update.zip'') = Inr INSTALL_CORRUPT \<and>
   filter dispatched (snd (install_package
     (sample_env\<lparr>verify_jar_signature := \<lambda>archive keys. False\<rparr>) ''SDCARD:update.zip'')) = [] \<and>
   load_keys (RSANUMWORDS (sample_env\<lparr>keys_file := Some ''''\<rparr>))
     (keys_file (sample_env\<lparr>keys_file := Some ''''\<rparr>)) = None \<and>
   fst (install_package (sample_env\<lparr>keys_file := Some ''''\<rparr>) ''SDCARD:update.zip'') =
     Inr INSTALL_CORRUPT"
proof -
  let ?env = "sample_env\<lparr>verify_jar_signature := \<lambda>archive keys. False\<rparr>"
  let ?env2 = "sample_env\<lparr>keys_file := Some ''''\<rparr>"
  have t: "translate_root_path ?env ''SDCARD:update.zip'' = Some ''/sdcard/update.zip''"
    by (simp add: sample_env_def)
  have k: "load_keys (RSANUMWORDS ?env) (keys_file ?env) =
      Some [\<lparr>len = 2, n0inv = 17, n = [1, 2], rr = [3, 4]\<rparr>]"
    using sample_keys by (simp add: sample_env_def)
  have z: "mzOpenZipArchive ?env ''/sdcard/update.zip'' = Inr binary_package"
    by (simp add: sample_env_def)
  have v: "\<not> verify_jar_signature ?env binary_package
      [\<lparr>len = 2, n0inv = 17, n = [1, 2], rr = [3, 4]\<rparr>]"
    by simp
  have k2: "load_keys (RSANUMWORDS ?env2) (keys_file ?env2) = None"
    by (simp add: load_keys_empty_file)
  from install_package_corrupt_before_dispatch [of ?env "''SDCARD:update.zip''"] t k z v
  have one: "fst (install_package ?env ''SDCARD:update.zip'') = Inr INSTALL_CORRUPT \<and>
      filter dispatched (snd (install_package ?env ''SDCARD:update.zip'')) = []"
    by blast
  from install_package_corrupt_before_dispatch [of ?env2 "''SDCARD:update.zip''"] k2
  have two: "fst (install_package ?env2 ''SDCARD:update.zip'') = Inr INSTALL_CORRUPT"
    by blast
  from t k z v k2 one two show ?thesis by simp
qed

lemma install_package_signature_failure:
  assumes "ensure_root_path_mounted env root_path = 0"
    and "translate_root_path env root_path = Some path"
    and "load_keys (RSANUMWORDS env) (keys_file env) = Some keys"
    and "mzOpenZipArchive env path = Inr archive"
    and "\<not> verify_jar_signature env archive keys"
  shows "install_package env root_path =
     (Inr INSTALL_CORRUPT,
      [Msg Preparing, Msg Opening, Msg Verifying, Open_archive path, Verify_signature,
       Msg Signature_failed])"
  using assms by (simp add: install_package_def)

text \<open>
  Claim C9 does not hold of the code. In this run the archive is opened and the signature
  does not verify: \<open>install_package\<close> returns CORRUPT at line 467, and the trace holds the
  opening of the archive and no closing of it. The call of \<open>mzCloseZipArchive\<close> at line
  473 is only reached through \<open>handle_update_package\<close>; there, as the second run shows,
  the archive is closed once. The lemma before this gives the same trace for every run
  in which the archive opens and the signature does not verify.
\<close>

theorem archive_not_closed_when_signature_fails:
  "install_package (sample_env\<lparr>verify_jar_signature := \<lambda>archive keys. False\<rparr>)
     ''SDCARD:update.zip'' =
     (Inr INSTALL_CORRUPT,
      [Msg Preparing, Msg Opening, Msg Verifying, Open_archive ''/sdcard/update.zip'',
       Verify_signature, Msg Signature_failed]) \<and>
   count_list (snd (install_package (sample_env\<lparr>verify_jar_signature := \<lambda>archive keys. False\<rparr>)
     ''SDCARD:update.zip'')) (Open_archive ''/sdcard/update.zip'') = 1 \<and>
   count_list (snd (install_package (sample_env\<lparr>verify_jar_signature := \<lambda>archive keys. False\<rparr>)
     ''SDCARD:update.zip'')) Close_archive = 0 \<and>
   count_list (snd (install_package sample_env ''SDCARD:update.zip'')) Close_archive = 1"
  by code_simp

subsection \<open>The line of a failed script\<close>

lemma memchr_line:
  assumes "CHR 0x0A \<notin> set l" and "length l < k"
  shows "memchr (pre @ l @ CHR 0x0A # rest) (length pre) CHR 0x0A k = Some (length pre + length l)"
proof -
  have d: "drop (length pre) (pre @ l @ CHR 0x0A # rest) = l @ CHR 0x0A # rest" by simp
  define seg where "seg = take k (l @ CHR 0x0A # rest)"
  have seg': "seg = l @ CHR 0x0A # take (k - Suc (length l)) rest"
    using assms(2) by (simp add: seg_def take_Cons')
  have mem: "CHR 0x0A \<in> set seg" by (simp add: seg')
  have tw: "takeWhile (\<lambda>x. x \<noteq> CHR 0x0A) seg = l"
    unfolding seg' using assms(1) by (subst takeWhile_append2) auto
  show ?thesis
    unfolding memchr_def Let_def d seg_def [symmetric] using mem tw by simp
qed

lemma memchr_none:
  assumes "CHR 0x0A \<notin> set l"
  shows "memchr (pre @ l @ rest) (length pre) CHR 0x0A (length l) = None"
  using assms by (simp add: memchr_def Let_def)

lemma find_line_stop: "find_line buf k line (Some p) 0 = (buf, line, Some p)"
  by (subst find_line.simps) simp

lemma find_line_end: "find_line buf k line None ret = (buf, line, None)"
  by (subst find_line.simps) simp

lemma find_line_step:
  assumes "CHR 0x0A \<notin> set l" and "length pre + length l < k" and "0 < ret"
  shows "find_line (pre @ l @ CHR 0x0A # rest) k line (Some (length pre)) ret =
         find_line (pre @ l @ NUL # rest) k (Some (length pre))
           (Some (length (pre @ l @ [NUL]))) (ret - 1)"
proof -
  have "length l < k - length pre" using assms(2) by simp
  from memchr_line [OF assms(1) this, of pre rest]
  have m: "memchr (pre @ l @ CHR 0x0A # rest) (length pre) CHR 0x0A (k - length pre) =
      Some (length pre + length l)" .
  have u: "(pre @ l @ CHR 0x0A # rest)[length pre + length l := NUL] = pre @ l @ NUL # rest"
    by (simp add: list_update_append)
  show ?thesis
    using assms(3) by (subst find_line.simps) (simp add: m u)
qed

lemma find_line_terminated:
  assumes "\<forall>l \<in> set ls. CHR 0x0A \<notin> set l \<and> NUL \<notin> set l"
    and "1 \<le> j" and "j \<le> length ls"
    and "length pre + length (script_lines ls) \<le> k"
  shows "\<exists>buf p q. find_line (pre @ script_lines ls @ rest) k line (Some (length pre)) (int j) =
           (buf, Some p, Some q) \<and> cstr (drop p buf) = ls ! (j - 1)"
  using assms
proof (induction ls arbitrary: pre j line)
  case Nil
  then show ?case by simp
next
  case (Cons l ls)
  then have nl: "CHR 0x0A \<notin> set l" and nn: "NUL \<notin> set l" by simp_all
  have len: "length pre + length l < k"
    using Cons.prems(4) by (simp add: script_lines_def)
  have step: "find_line (pre @ script_lines (l # ls) @ rest) k line (Some (length pre)) (int j) =
      find_line (pre @ l @ NUL # script_lines ls @ rest) k (Some (length pre))
        (Some (length (pre @ l @ [NUL]))) (int j - 1)"
    using find_line_step [OF nl len, of "int j" "script_lines ls @ rest" line] Cons.prems(2)
    by (simp add: script_lines_def)
  show ?case
  proof (cases "j = 1")
    case True
    have "takeWhile (\<lambda>c. c \<noteq> NUL) (l @ NUL # script_lines ls @ rest) = l"
      using nn by (subst takeWhile_append2) auto
    then have "cstr (drop (length pre) (pre @ l @ NUL # script_lines ls @ rest)) = l"
      by (simp add: cstr_def)
    then show ?thesis
      unfolding step using True by (simp add: find_line_stop)
  next
    case False
    with Cons.prems(2,3) have j: "1 \<le> j - 1" "j - 1 \<le> length ls" by simp_all
    have k': "length (pre @ l @ [NUL]) + length (script_lines ls) \<le> k"
      using Cons.prems(4) by (simp add: script_lines_def)
    from Cons.prems(1) have a: "\<forall>l \<in> set ls. CHR 0x0A \<notin> set l \<and> NUL \<notin> set l" by simp
    from Cons.IH [OF a j k', of "Some (length pre)"]
    obtain buf p q where
      "find_line ((pre @ l @ [NUL]) @ script_lines ls @ rest) k (Some (length pre))
         (Some (length (pre @ l @ [NUL]))) (int (j - 1)) = (buf, Some p, Some q)"
      and c: "cstr (drop p buf) = ls ! (j - 1 - 1)"
      by blast
    moreover have "int (j - 1) = int j - 1" using Cons.prems(2) by simp
    moreover have "(l # ls) ! (j - 1) = ls ! (j - 1 - 1)"
      using False Cons.prems(2) by (cases "j - 1") simp_all
    ultimately show ?thesis
      unfolding step by simp
  qed
qed

lemma find_line_last:
  assumes "\<forall>l \<in> set ls. CHR 0x0A \<notin> set l" and "CHR 0x0A \<notin> set final"
    and "length ls < j" and "k = length pre + length (script_lines ls) + length final"
  shows "\<exists>buf line'. find_line (pre @ script_lines ls @ final @ [NUL]) k
           line (Some (length pre)) (int j) = (buf, line', None)"
  using assms
proof (induction ls arbitrary: pre j line)
  case Nil
  have "memchr (pre @ final @ [NUL]) (length pre) CHR 0x0A (length final) = None"
    using memchr_none [OF Nil.prems(2), of pre "[NUL]"] by simp
  then show ?case
    using Nil.prems(3,4)
    by (subst find_line.simps) (simp add: script_lines_def find_line_end)
next
  case (Cons l ls)
  then have nl: "CHR 0x0A \<notin> set l" by simp
  have len: "length pre + length l < k"
    using Cons.prems(4) by (simp add: script_lines_def)
  have jpos: "0 < int j" using Cons.prems(3) by simp
  have step: "find_line (pre @ script_lines (l # ls) @ final @ [NUL]) k line
        (Some (length pre)) (int j) =
      find_line (pre @ l @ NUL # script_lines ls @ final @ [NUL]) k (Some (length pre))
        (Some (length (pre @ l @ [NUL]))) (int j - 1)"
    using find_line_step [OF nl len jpos, of "script_lines ls @ final @ [NUL]" line]
    by (simp add: script_lines_def)
  from Cons.prems have a: "\<forall>l \<in> set ls. CHR 0x0A \<notin> set l" and j: "length ls < j - 1"
    by simp_all
  have k': "k = length (pre @ l @ [NUL]) + length (script_lines ls) + length final"
    using Cons.prems(4) by (simp add: script_lines_def)
  from Cons.IH [OF a Cons.prems(2) j k', of "Some (length pre)"]
  obtain buf line' where
    "find_line ((pre @ l @ [NUL]) @ script_lines ls @ final @ [NUL]) k (Some (length pre))
       (Some (length (pre @ l @ [NUL]))) (int (j - 1)) = (buf, line', None)"
    by blast
  moreover have "int (j - 1) = int j - 1" using Cons.prems(3) by simp
  ultimately show ?case
    unfolding step by simp
qed

lemma report_line_terminated:
  assumes "\<forall>l \<in> set ls. CHR 0x0A \<notin> set l \<and> NUL \<notin> set l"
    and "1 \<le> j" and "j \<le> length ls"
  shows "report_line (script_lines ls @ final @ [NUL]) (int (length (script_lines ls @ final))) (int j) =
           Line (ls ! (j - 1))"
proof -
  have "length [] + length (script_lines ls) \<le> length (script_lines ls @ final)" by simp
  from find_line_terminated [OF assms this, of "final @ [NUL]" None]
  show ?thesis by (auto simp: report_line_def nat_int_add)
qed

lemma report_line_last:
  assumes "\<forall>l \<in> set ls. CHR 0x0A \<notin> set l" and "CHR 0x0A \<notin> set final" and "length ls < j"
  shows "report_line (script_lines ls @ final @ [NUL]) (int (length (script_lines ls @ final))) (int j) =
           Not_found"
  using find_line_last [OF assms, of "length (script_lines ls @ final)" "[]" None]
  by (auto simp: report_line_def nat_int_add split: option.splits)

lemma handle_update_script_line:
  assumes "contents entry = script_lines ls @ final" and "contents entry \<noteq> []"
    and "readable entry" and "malloc_ok env (Suc (length (contents entry)))"
    and "parseAmendScript env (contents entry) = Some commands"
    and "execCommandList env commands = int j" and "1 \<le> j"
    and "\<forall>l \<in> set ls. CHR 0x0A \<notin> set l \<and> NUL \<notin> set l" and "CHR 0x0A \<notin> set final"
  shows "handle_update_script env entry =
     (INSTALL_ERROR,
      [Parse_script, Exec_script,
       Msg (Script_line_error (int j) (if j \<le> length ls then Line (ls ! (j - 1)) else Not_found))])"
proof -
  have r: "report_line (contents entry @ [NUL]) (int (length (contents entry))) (int j) =
      (if j \<le> length ls then Line (ls ! (j - 1)) else Not_found)"
  proof (cases "j \<le> length ls")
    case True
    with report_line_terminated [OF assms(8) assms(7) True, of final] show ?thesis
      by (simp add: assms(1))
  next
    case False
    then have "length ls < j" by simp
    with report_line_last [of ls final j] assms(8,9) show ?thesis
      by (simp add: assms(1))
  qed
  have d: "read_data env entry = (Inr (contents entry @ [NUL], int (length (contents entry))), [])"
    using assms(2,3,4) by (simp add: read_data_def uncompLen_def Let_def nat_add_distrib)
  show ?thesis
    using assms(5,6,7) by (simp add: handle_update_script_def d r Let_def)
qed

text \<open>
  Claim C7 does not hold of the code. The script has three lines, the third without a
  newline after it, and the interpreter returns 3. The loop of lines 104 to 108 finds the
  third line, but \<open>memchr\<close> finds no newline after it and leaves \<open>next\<close> NULL, so line 109
  prints the text for a line that was not found instead of the line. With a newline after
  the third line, the line is printed; in both runs the result is ERROR. The lemma before
  this says the same of every script: the line is named when a newline follows it, and
  not named when it is the last line and the script ends without a newline.
\<close>

theorem script_error_on_last_line_without_newline:
  "handle_update_script sample_env \<lparr>contents = ''a\<newline>b\<newline>c'', readable = True\<rparr> =
     (INSTALL_ERROR, [Parse_script, Exec_script, Msg (Script_line_error 3 Not_found)]) \<and>
   handle_update_script sample_env \<lparr>contents = ''a\<newline>b\<newline>c\<newline>'', readable = True\<rparr> =
     (INSTALL_ERROR, [Parse_script, Exec_script, Msg (Script_line_error 3 (Line ''c''))])"
  by code_simp

section \<open>Properties of the recovery state\<close>

subsection \<open>finish_recovery\<close>










subsection \<open>get_args\<close>






















section \<open>Properties of the key file\<close>

subsection \<open>Characters, numbers and the stages of a record\<close>

lemma digit_not_space: "is_digit b c \<Longrightarrow> \<not> isspace c"
  by (auto simp: is_digit_def digit_value_def isspace_def)

lemma digit_not_punct:
  "is_digit b c \<Longrightarrow> c \<noteq> CHR '','' \<and> c \<noteq> CHR ''}'' \<and> c \<noteq> CHR ''{'' \<and> c \<noteq> CHR ''-'' \<and>
     c \<noteq> CHR ''+'' \<and> c \<noteq> CHR ''x'' \<and> c \<noteq> CHR ''X''"
  by (auto simp: is_digit_def digit_value_def)

lemma punct_not_space:
  "\<not> isspace CHR ''{''" "\<not> isspace CHR '',''" "\<not> isspace CHR ''}''"
  "\<not> isspace CHR ''-''" "\<not> isspace CHR ''+''"
  by (simp_all add: isspace_def)

lemma space_not_sign: "isspace c \<Longrightarrow> c \<noteq> CHR ''-'' \<and> c \<noteq> CHR ''+'' \<and> c \<noteq> CHR ''x'' \<and> c \<noteq> CHR ''X''"
  by (auto simp: isspace_def)

lemma space_not_digit: "isspace c \<Longrightarrow> \<not> is_digit b c"
  using digit_not_space by blast

lemma zero_digit: "0 < b \<Longrightarrow> is_digit b CHR ''0''"
  by (simp add: is_digit_def digit_value_def)

lemma digits_value_zero: "digits_value b (CHR ''0'' # ds) = digits_value b ds"
  by (simp add: digits_value_def digit_value_def)

lemma boundary_not_digit: "boundary (c # r) \<Longrightarrow> \<not> is_digit b c"
  by (auto simp: boundary_def dest: digit_not_space digit_not_punct)

lemma boundary_not_x: "boundary (c # r) \<Longrightarrow> c \<noteq> CHR ''x'' \<and> c \<noteq> CHR ''X''"
  by (auto simp: boundary_def dest: space_not_sign)

lemma skip_space_append: "list_all isspace a \<Longrightarrow> skip_space (a @ s) = skip_space s"
  by (induction a) (simp_all add: skip_space_def)

lemma skip_space_stop: "\<not> isspace c \<Longrightarrow> skip_space (c # s) = c # s"
  by (simp add: skip_space_def)

lemma lit_gap:
  "list_all isspace a \<Longrightarrow> \<not> isspace c \<Longrightarrow> lit c (a @ c # s) = Some s"
  by (simp add: lit_def skip_space_append skip_space_stop match_char_def)

lemma takeWhile_digits:
  assumes "list_all (is_digit b) ds" and "boundary rest"
  shows "takeWhile (is_digit b) (ds @ rest) = ds"
proof -
  have "takeWhile (is_digit b) rest = []"
    using assms(2) boundary_not_digit [of _ _ b] by (cases rest) auto
  with assms(1) show ?thesis
    by (simp add: takeWhile_append2 list_all_iff)
qed

text \<open>The conversion on a number that is written out, after the white space.\<close>

lemma literal_body:
  assumes "valid_literal (Literal sg rd ds)"
  shows "radix_prefix rd @ ds @ rest \<noteq> []"
    and "is_digit 16 (hd (radix_prefix rd @ ds @ rest))"
  using assms
  by (cases rd; cases ds; auto simp: is_digit_def digit_value_def split: option.splits)+

lemma strip_sign_literal:
  assumes "valid_literal (Literal sg rd ds)"
  shows "strip_sign (sg @ radix_prefix rd @ ds @ rest) = (sg = ''-'', radix_prefix rd @ ds @ rest)"
proof -
  from assms have sg: "sg = [] \<or> sg = ''+'' \<or> sg = ''-''" by simp
  obtain c r where b: "radix_prefix rd @ ds @ rest = c # r"
    using literal_body(1) [OF assms, of rest] by (cases "radix_prefix rd @ ds @ rest") auto
  with literal_body(2) [OF assms, of rest] have "is_digit 16 c" by simp
  then have "c \<noteq> CHR ''-'' \<and> c \<noteq> CHR ''+''" using digit_not_punct by blast
  with sg b show ?thesis by (auto simp: strip_sign_def)
qed

lemma number_base_literal:
  assumes "valid_literal (Literal sg rd ds)" and "boundary rest"
  shows "number_base (radix_prefix rd @ ds @ rest) =
           (radix_base rd, (if rd = Octal then CHR ''0'' # ds else ds) @ rest)"
proof (cases rd)
  case Decimal
  with assms(1) obtain d ds' where d: "ds = d # ds'" "d \<noteq> CHR ''0''"
    by (cases ds) auto
  with Decimal show ?thesis
    by (simp add: number_base_def hex_prefix_def split: list.splits)
next
  case Octal
  have "\<not> hex_prefix (CHR ''0'' # ds @ rest)"
  proof (cases ds)
    case Nil
    then show ?thesis
      using assms(2) boundary_not_x by (auto simp: hex_prefix_def split: list.splits)
  next
    case (Cons d ds')
    with assms(1) Octal have "d \<noteq> CHR ''x'' \<and> d \<noteq> CHR ''X''"
      using digit_not_punct [of 8 d] by simp
    with Cons show ?thesis by (auto simp: hex_prefix_def split: list.splits)
  qed
  with Octal show ?thesis by (simp add: number_base_def)
next
  case Hex_lower
  with assms(1) obtain d ds' where d: "ds = d # ds'" "is_digit 16 d"
    by (cases ds) auto
  with Hex_lower show ?thesis
    by (simp add: number_base_def hex_prefix_def)
next
  case Hex_upper
  with assms(1) obtain d ds' where d: "ds = d # ds'" "is_digit 16 d"
    by (cases ds) auto
  with Hex_upper show ?thesis
    by (simp add: number_base_def hex_prefix_def)
qed

lemma scan_i_literal:
  assumes "valid_literal l" and "list_all isspace b" and "boundary rest"
  shows "scan_i (b @ literal_text l @ rest) = Some (strtoimax_range (literal_value l), rest)"
proof -
  obtain sg rd ds where l: "l = Literal sg rd ds" by (cases l)
  note v = assms(1) [unfolded l]
  define body where "body = radix_prefix rd @ ds @ rest"
  define digs where "digs = (if rd = Octal then CHR ''0'' # ds else ds)"
  from v have sg: "sg = [] \<or> sg = ''+'' \<or> sg = ''-''"
    and ds: "list_all (is_digit (radix_base rd)) ds"
    by simp_all
  have "\<not> isspace (hd (sg @ body))"
    using sg literal_body [OF v, of rest] punct_not_space digit_not_space
    unfolding body_def by (cases "radix_prefix rd @ ds @ rest") auto
  moreover have "sg @ body \<noteq> []"
    using literal_body(1) [OF v, of rest] by (simp add: body_def)
  ultimately have "skip_space (sg @ body) = sg @ body"
    by (cases "sg @ body") (auto simp: skip_space_def)
  then have skip: "skip_space (b @ sg @ body) = sg @ body"
    using assms(2) by (simp add: skip_space_append)
  have ss: "strip_sign (sg @ body) = (sg = ''-'', body)"
    using strip_sign_literal [OF v, of rest] by (simp add: body_def)
  have nb: "number_base body = (radix_base rd, digs @ rest)"
    using number_base_literal [OF v assms(3)] by (simp add: body_def digs_def)
  have tw: "takeWhile (is_digit (radix_base rd)) (ds @ rest) = ds"
    by (rule takeWhile_digits [OF ds assms(3)])
  have twd: "takeWhile (is_digit (radix_base rd)) (digs @ rest) = digs"
    using tw by (cases "rd = Octal") (simp_all add: digs_def zero_digit)
  have ne: "digs \<noteq> []"
    using v by (cases rd) (auto simp: digs_def)
  have dv: "digits_value (radix_base rd) digs = digits_value (radix_base rd) ds"
    by (simp add: digs_def digits_value_zero)
  have "scan_i (b @ sg @ body) = Some (strtoimax_range (literal_value (Literal sg rd ds)), rest)"
    by (simp add: scan_i_def skip ss nb twd ne dv Let_def)
  then show ?thesis by (simp add: l body_def)
qed

lemma unparsable_scan_i:
  assumes "unparsable junk"
  shows "scan_i junk = None"
proof -
  have nb: "\<not> is_digit 10 c \<Longrightarrow> takeWhile (is_digit (fst (number_base (c # r)))) (snd (number_base (c # r))) = []"
    for c r
  proof -
    assume a: "\<not> is_digit 10 c"
    then have "c \<noteq> CHR ''0''" using zero_digit [of 10] by auto
    then have "number_base (c # r) = (10, c # r)"
      by (auto simp: number_base_def hex_prefix_def split: list.splits)
    with a show ?thesis by simp
  qed
  have nil: "takeWhile (is_digit (fst (number_base []))) (snd (number_base [])) = []"
    by (simp add: number_base_def hex_prefix_def)
  have fin: "takeWhile (is_digit (fst (number_base s1))) (snd (number_base s1)) = [] \<Longrightarrow>
      strip_sign (skip_space junk) = (neg, s1) \<Longrightarrow> scan_i junk = None" for s1 neg
    by (cases "number_base s1") (simp add: scan_i_def Let_def)
  show ?thesis
  proof (cases "skip_space junk")
    case Nil
    then have "strip_sign (skip_space junk) = (False, [])" by (simp add: strip_sign_def)
    from fin [OF nil this] show ?thesis .
  next
    case (Cons c r)
    show ?thesis
    proof (cases "c = CHR ''-'' \<or> c = CHR ''+''")
      case True
      with Cons have s: "strip_sign (skip_space junk) = (c = CHR ''-'', r)"
        by (auto simp: strip_sign_def)
      from assms Cons True have "r = [] \<or> \<not> is_digit 10 (hd r)"
        by (auto simp: unparsable_def split: list.splits)
      then have "takeWhile (is_digit (fst (number_base r))) (snd (number_base r)) = []"
        using nil nb by (cases r) auto
      from fin [OF this s] show ?thesis .
    next
      case False
      with Cons have s: "strip_sign (skip_space junk) = (False, c # r)"
        by (auto simp: strip_sign_def)
      from assms Cons False have "\<not> is_digit 10 c"
        by (auto simp: unparsable_def)
      from fin [OF nb [OF this] s] show ?thesis .
    qed
  qed
qed

lemma boundary_gap:
  "list_all isspace a \<Longrightarrow> c = CHR '','' \<or> c = CHR ''}'' \<Longrightarrow> boundary (a @ c # r)"
  by (cases a) (auto simp: boundary_def)

lemma boundary_word: "valid_word w \<Longrightarrow> boundary (word_text CHR '','' w @ r)"
  by (cases w) (simp add: boundary_gap)

lemma boundary_words:
  "list_all valid_word ws \<Longrightarrow> boundary r \<Longrightarrow> boundary (concat (map (word_text CHR '','') ws) @ r)"
  by (cases ws) (simp_all add: boundary_word)

lemma sep_word:
  assumes "valid_word w" and "boundary rest" and "\<not> isspace sep"
  shows "(case lit sep (word_text sep w @ rest) of None \<Rightarrow> None | Some f \<Rightarrow> scan_i f) =
           Some (word_read w, rest)"
proof -
  obtain a b l where w: "w = (a, b, l)" by (cases w)
  with assms(1) have v: "list_all isspace a" "list_all isspace b" "valid_literal l" by simp_all
  have "lit sep (a @ sep # b @ literal_text l @ rest) = Some (b @ literal_text l @ rest)"
    by (rule lit_gap [OF v(1) assms(3)])
  then show ?thesis
    using scan_i_literal [OF v(3) v(2) assms(2)] by (simp add: w word_read_def)
qed

lemma scan_comma_i_word:
  assumes "valid_word w" and "boundary rest"
  shows "scan_comma_i (word_text CHR '','' w @ rest) = Some (word_read w, rest)"
  using sep_word [OF assms punct_not_space(2)] by (simp add: scan_comma_i_def)

lemma scan_words_valid:
  assumes "list_all valid_word ws" and "boundary rest"
  shows "scan_words (length ws) (concat (map (word_text CHR '','') ws) @ rest) =
           Some (map word_read ws, rest)"
  using assms(1)
proof (induction ws)
  case Nil
  then show ?case by simp
next
  case (Cons w ws)
  then have w: "valid_word w" and ws: "list_all valid_word ws" by simp_all
  have "scan_comma_i (word_text CHR '','' w @ concat (map (word_text CHR '','') ws) @ rest) =
      Some (word_read w, concat (map (word_text CHR '','') ws) @ rest)"
    by (rule scan_comma_i_word [OF w boundary_words [OF ws assms(2)]])
  with Cons.IH [OF ws] show ?case by simp
qed

lemma scan_head_valid:
  assumes "valid_word lw" and "valid_word iw" and "list_all isspace g" and "valid_word nw"
    and "boundary rest"
  shows "scan_head (word_text CHR ''{'' lw @ word_text CHR '','' iw @ g @ CHR '','' #
             word_text CHR ''{'' nw @ rest) =
           Some (word_read lw, word_read iw, word_read nw, rest)"
proof -
  let ?r3 = "word_text CHR ''{'' nw @ rest"
  let ?r2 = "g @ CHR '','' # ?r3"
  let ?r1 = "word_text CHR '','' iw @ ?r2"
  have b1: "boundary ?r1" by (rule boundary_word [OF assms(2)])
  have b2: "boundary ?r2" by (rule boundary_gap [OF assms(3)]) simp
  note s1 = sep_word [OF assms(1) b1 punct_not_space(1)]
  note s2 = sep_word [OF assms(2) b2 punct_not_space(2)]
  note s3 = sep_word [OF assms(4) assms(5) punct_not_space(1)]
  have l: "lit CHR '','' ?r2 = Some ?r3"
    by (rule lit_gap [OF assms(3) punct_not_space(2)])
  obtain f1 where f1: "lit CHR ''{'' (word_text CHR ''{'' lw @ ?r1) = Some f1"
    and i1: "scan_i f1 = Some (word_read lw, ?r1)"
    using s1 by (auto split: option.splits)
  obtain f3 where f3: "lit CHR '','' ?r1 = Some f3"
    and i3: "scan_i f3 = Some (word_read iw, ?r2)"
    using s2 by (auto split: option.splits)
  obtain f6 where f6: "lit CHR ''{'' ?r3 = Some f6"
    and i6: "scan_i f6 = Some (word_read nw, rest)"
    using s3 by (auto split: option.splits)
  show ?thesis
    unfolding scan_head_def
    by (simp only: f1 i1 f3 i3 l f6 i6 option.case prod.case append_assoc)
qed

lemma scan_middle_valid:
  assumes "list_all isspace g1" and "list_all isspace g2" and "valid_word w" and "boundary rest"
  shows "scan_middle (g1 @ CHR ''}'' # g2 @ CHR '','' # word_text CHR ''{'' w @ rest) =
           Some (word_read w, rest)"
proof -
  have a: "lit CHR ''}'' (g1 @ CHR ''}'' # g2 @ CHR '','' # word_text CHR ''{'' w @ rest) =
      Some (g2 @ CHR '','' # word_text CHR ''{'' w @ rest)"
    by (rule lit_gap [OF assms(1) punct_not_space(3)])
  have b: "lit CHR '','' (g2 @ CHR '','' # word_text CHR ''{'' w @ rest) =
      Some (word_text CHR ''{'' w @ rest)"
    by (rule lit_gap [OF assms(2) punct_not_space(2)])
  obtain f where f: "lit CHR ''{'' (word_text CHR ''{'' w @ rest) = Some f"
    and i: "scan_i f = Some (word_read w, rest)"
    using sep_word [OF assms(3) assms(4) punct_not_space(1)] by (auto split: option.splits)
  show ?thesis
    unfolding scan_middle_def by (simp only: a b f i option.case)
qed

lemma scan_close_valid:
  assumes "list_all isspace g1" and "list_all isspace g2" and "list_all isspace g3"
    and "rest = [] \<or> \<not> isspace (hd rest)"
  shows "scan_close (g1 @ CHR ''}'' # g2 @ CHR ''}'' # g3 @ rest) = rest"
proof -
  have a: "lit CHR ''}'' (g1 @ CHR ''}'' # g2 @ CHR ''}'' # g3 @ rest) =
      Some (g2 @ CHR ''}'' # g3 @ rest)"
    by (rule lit_gap [OF assms(1) punct_not_space(3)])
  have b: "lit CHR ''}'' (g2 @ CHR ''}'' # g3 @ rest) = Some (g3 @ rest)"
    by (rule lit_gap [OF assms(2) punct_not_space(3)])
  have "skip_space rest = rest"
    using assms(4) by (cases rest) (simp_all add: skip_space_def)
  then have c: "skip_space (g3 @ rest) = rest"
    using assms(3) by (simp add: skip_space_append)
  show ?thesis
    unfolding scan_close_def by (simp only: a b c option.case)
qed

lemma scan_key_valid:
  assumes "stored_len_matches nwords ks" and "0 < nwords"
    and "rest = [] \<or> \<not> isspace (hd rest)"
  shows "scan_key nwords (key_text ks @ rest) = Some (key_of ks, rest)"
proof -
  note v = assms(1) [unfolded stored_len_matches_def record_shape_def]
  from v assms(2) obtain n0 ns where n: "n_source ks = n0 # ns" and ln: "length ns = nwords - 1"
    by (cases "n_source ks") auto
  from v assms(2) obtain r0 rs where r: "rr_source ks = r0 # rs" and lr: "length rs = nwords - 1"
    by (cases "rr_source ks") auto
  from v n r have vw: "valid_word n0" "list_all valid_word ns" "valid_word r0" "list_all valid_word rs"
    by simp_all
  define R4 where "R4 = gap_rr_close ks @ CHR ''}'' # gap_close ks @ CHR ''}'' # gap_after ks @ rest"
  define R3 where "R3 = concat (map (word_text CHR '','') rs) @ R4"
  define R2 where "R2 = gap_n_close ks @ CHR ''}'' # gap_rr ks @ CHR '','' # word_text CHR ''{'' r0 @ R3"
  define R1 where "R1 = concat (map (word_text CHR '','') ns) @ R2"
  have kt: "key_text ks @ rest =
      word_text CHR ''{'' (len_source ks) @ word_text CHR '','' (n0inv_source ks) @
      gap_n ks @ CHR '','' # word_text CHR ''{'' n0 @ R1"
    by (simp add: key_text_def n r R1_def R2_def R3_def R4_def)
  have b4: "boundary R4" unfolding R4_def using v by (intro boundary_gap) simp_all
  have b3: "boundary R3" unfolding R3_def by (rule boundary_words [OF vw(4) b4])
  have b2: "boundary R2" unfolding R2_def using v by (intro boundary_gap) simp_all
  have b1: "boundary R1" unfolding R1_def by (rule boundary_words [OF vw(2) b2])
  have h: "scan_head (key_text ks @ rest) =
      Some (word_read (len_source ks), word_read (n0inv_source ks), word_read n0, R1)"
    unfolding kt using v vw(1) b1 by (intro scan_head_valid) simp_all
  have w1: "scan_words (nwords - Suc 0) R1 = Some (map word_read ns, R2)"
    using scan_words_valid [OF vw(2) b2] by (simp add: R1_def ln)
  have m: "scan_middle R2 = Some (word_read r0, R3)"
    unfolding R2_def using v vw(3) b3 by (intro scan_middle_valid) simp_all
  have w2: "scan_words (nwords - Suc 0) R3 = Some (map word_read rs, R4)"
    using scan_words_valid [OF vw(4) b4] by (simp add: R3_def lr)
  have c: "scan_close R4 = rest"
    unfolding R4_def using v assms(3) by (intro scan_close_valid) simp_all
  from v have le: "store_int (word_read (len_source ks)) = int nwords" by simp
  show ?thesis
    by (simp add: scan_key_def h le w1 m w2 c key_of_def n r)
qed

lemma load_keys_loop_file:
  assumes "list_all (stored_len_matches nwords) kss" and "kss \<noteq> []" and "0 < nwords"
  shows "load_keys_loop nwords (file_text kss) out = Some (out @ map key_of kss)"
  using assms(1,2)
proof (induction kss arbitrary: out rule: file_text.induct)
  case 1
  then show ?case by simp
next
  case (2 ks)
  then have v: "stored_len_matches nwords ks" by simp
  have "scan_key nwords (key_text ks) = Some (key_of ks, [])"
    using scan_key_valid [OF v assms(3), of "[]"] by simp
  then show ?case
    by (subst load_keys_loop.simps) simp
next
  case (3 ks k2 kss)
  then have v: "stored_len_matches nwords ks" and vs: "list_all (stored_len_matches nwords) (k2 # kss)"
    by simp_all
  have "scan_key nwords (key_text ks @ CHR '','' # file_text (k2 # kss)) =
      Some (key_of ks, CHR '','' # file_text (k2 # kss))"
    using scan_key_valid [OF v assms(3), of "CHR '','' # file_text (k2 # kss)"] punct_not_space(2)
    by simp
  then show ?case
    using "3.IH" [OF vs, of "out @ [key_of ks]"]
    by (subst load_keys_loop.simps) simp
qed

lemma load_keys_loop_records:
  assumes "list_all (stored_len_matches nwords) kss" and "0 < nwords"
  shows "load_keys_loop nwords (records_text kss @ rest) out =
           load_keys_loop nwords rest (out @ map key_of kss)"
  using assms(1)
proof (induction kss arbitrary: out)
  case Nil
  then show ?case by (simp add: records_text_def)
next
  case (Cons ks kss)
  then have v: "stored_len_matches nwords ks" and vs: "list_all (stored_len_matches nwords) kss"
    by simp_all
  have t: "records_text (ks # kss) @ rest = key_text ks @ CHR '','' # records_text kss @ rest"
    by (simp add: records_text_def)
  have "scan_key nwords (key_text ks @ CHR '','' # records_text kss @ rest) =
      Some (key_of ks, CHR '','' # records_text kss @ rest)"
    using scan_key_valid [OF v assms(2), of "CHR '','' # records_text kss @ rest"] punct_not_space(2)
    by simp
  then show ?case
    unfolding t using Cons.IH [OF vs, of "out @ [key_of ks]"]
    by (subst load_keys_loop.simps) simp
qed

lemma load_keys_loop_trailing:
  assumes "list_all (stored_len_matches nwords) kss" and "kss \<noteq> []" and "0 < nwords"
    and "c \<noteq> CHR '',''" and "\<not> isspace c"
  shows "load_keys_loop nwords (file_text kss @ c # rest) out = None"
  using assms(1,2)
proof (induction kss arbitrary: out rule: file_text.induct)
  case 1
  then show ?case by simp
next
  case (2 ks)
  then have v: "stored_len_matches nwords ks" by simp
  have "scan_key nwords (key_text ks @ c # rest) = Some (key_of ks, c # rest)"
    using scan_key_valid [OF v assms(3), of "c # rest"] assms(5) by simp
  then show ?case
    using assms(4) by (subst load_keys_loop.simps) simp
next
  case (3 ks k2 kss)
  then have v: "stored_len_matches nwords ks" and vs: "list_all (stored_len_matches nwords) (k2 # kss)"
    by simp_all
  have "scan_key nwords (key_text ks @ CHR '','' # file_text (k2 # kss) @ c # rest) =
      Some (key_of ks, CHR '','' # file_text (k2 # kss) @ c # rest)"
    using scan_key_valid [OF v assms(3), of "CHR '','' # file_text (k2 # kss) @ c # rest"]
      punct_not_space(2)
    by simp
  then show ?case
    using "3.IH" [OF vs, of "out @ [key_of ks]"]
    by (subst load_keys_loop.simps) simp
qed

lemma sep_junk:
  assumes "list_all isspace a" and "\<not> isspace sep" and "unparsable junk"
  shows "(case lit sep (a @ sep # junk) of None \<Rightarrow> None | Some f \<Rightarrow> scan_i f) = None"
  using lit_gap [OF assms(1,2), of junk] unparsable_scan_i [OF assms(3)] by simp

lemma scan_key_wrong_len:
  assumes "valid_word w" and "store_int (word_read w) \<noteq> int nwords" and "boundary rest"
  shows "scan_key nwords (word_text CHR ''{'' w @ rest) = None"
proof -
  obtain f1 where f1: "lit CHR ''{'' (word_text CHR ''{'' w @ rest) = Some f1"
    and i1: "scan_i f1 = Some (word_read w, rest)"
    using sep_word [OF assms(1) assms(3) punct_not_space(1)] by (auto split: option.splits)
  have first: "l = word_read w" if "scan_head (word_text CHR ''{'' w @ rest) = Some (l, b, c, f)"
    for l b c f
    using that unfolding scan_head_def
    by (simp only: f1 i1 option.case prod.case) (auto split: option.splits)
  show ?thesis
  proof (cases "scan_head (word_text CHR ''{'' w @ rest)")
    case None
    then show ?thesis by (simp add: scan_key_def)
  next
    case (Some x)
    obtain l b c f where x: "x = (l, b, c, f)" by (cases x)
    with Some first have "l = word_read w" by simp
    with Some x assms(2) show ?thesis by (simp add: scan_key_def)
  qed
qed

lemma scan_head_junk_len:
  assumes "list_all isspace a" and "unparsable junk"
  shows "scan_head (a @ CHR ''{'' # junk) = None"
proof -
  have "lit CHR ''{'' (a @ CHR ''{'' # junk) = Some junk"
    by (rule lit_gap [OF assms(1) punct_not_space(1)])
  then show ?thesis
    using unparsable_scan_i [OF assms(2)] by (simp add: scan_head_def)
qed

lemma scan_head_junk_n0inv:
  assumes "valid_word lw" and "list_all isspace a" and "unparsable junk"
  shows "scan_head (word_text CHR ''{'' lw @ a @ CHR '','' # junk) = None"
proof -
  have b: "boundary (a @ CHR '','' # junk)" by (rule boundary_gap [OF assms(2)]) simp
  obtain f1 where f1: "lit CHR ''{'' (word_text CHR ''{'' lw @ a @ CHR '','' # junk) = Some f1"
    and i1: "scan_i f1 = Some (word_read lw, a @ CHR '','' # junk)"
    using sep_word [OF assms(1) b punct_not_space(1)] by (auto split: option.splits)
  have l: "lit CHR '','' (a @ CHR '','' # junk) = Some junk"
    by (rule lit_gap [OF assms(2) punct_not_space(2)])
  show ?thesis
    unfolding scan_head_def
    using unparsable_scan_i [OF assms(3)]
    by (simp only: f1 i1 l option.case prod.case)
qed

lemma scan_head_junk_n:
  assumes "valid_word lw" and "valid_word iw" and "list_all isspace g"
    and "list_all isspace a" and "unparsable junk"
  shows "scan_head (word_text CHR ''{'' lw @ word_text CHR '','' iw @ g @ CHR '','' #
           a @ CHR ''{'' # junk) = None"
proof -
  let ?r3 = "a @ CHR ''{'' # junk"
  let ?r2 = "g @ CHR '','' # ?r3"
  let ?r1 = "word_text CHR '','' iw @ ?r2"
  have b1: "boundary ?r1" by (rule boundary_word [OF assms(2)])
  have b2: "boundary ?r2" by (rule boundary_gap [OF assms(3)]) simp
  obtain f1 where f1: "lit CHR ''{'' (word_text CHR ''{'' lw @ ?r1) = Some f1"
    and i1: "scan_i f1 = Some (word_read lw, ?r1)"
    using sep_word [OF assms(1) b1 punct_not_space(1)] by (auto split: option.splits)
  obtain f3 where f3: "lit CHR '','' ?r1 = Some f3"
    and i3: "scan_i f3 = Some (word_read iw, ?r2)"
    using sep_word [OF assms(2) b2 punct_not_space(2)] by (auto split: option.splits)
  have l: "lit CHR '','' ?r2 = Some ?r3"
    by (rule lit_gap [OF assms(3) punct_not_space(2)])
  have l2: "lit CHR ''{'' ?r3 = Some junk"
    by (rule lit_gap [OF assms(4) punct_not_space(1)])
  show ?thesis
    unfolding scan_head_def
    using unparsable_scan_i [OF assms(5)]
    by (simp only: f1 i1 f3 i3 l l2 option.case prod.case append_assoc)
qed

lemma scan_words_junk:
  assumes "list_all valid_word ws" and "length ws < k" and "list_all isspace a"
    and "unparsable junk"
  shows "scan_words k (concat (map (word_text CHR '','') ws) @ a @ CHR '','' # junk) = None"
  using assms(1,2)
proof (induction ws arbitrary: k)
  case Nil
  then obtain k' where k: "k = Suc k'" by (cases k) auto
  have "scan_comma_i (a @ CHR '','' # junk) = None"
    using sep_junk [OF assms(3) punct_not_space(2) assms(4)] by (simp add: scan_comma_i_def)
  then show ?case by (simp add: k)
next
  case (Cons w ws)
  then obtain k' where k: "k = Suc k'" and lk: "length ws < k'" by (cases k) auto
  from Cons.prems have w: "valid_word w" and ws: "list_all valid_word ws" by simp_all
  let ?r = "concat (map (word_text CHR '','') ws) @ a @ CHR '','' # junk"
  have "boundary (a @ CHR '','' # junk)" by (rule boundary_gap [OF assms(3)]) simp
  then have b: "boundary ?r" by (rule boundary_words [OF ws])
  have "scan_comma_i (word_text CHR '','' w @ ?r) = Some (word_read w, ?r)"
    by (rule scan_comma_i_word [OF w b])
  with Cons.IH [OF ws lk] show ?case by (simp add: k)
qed

lemma scan_middle_junk:
  assumes "list_all isspace g1" and "list_all isspace g2" and "list_all isspace a"
    and "unparsable junk"
  shows "scan_middle (g1 @ CHR ''}'' # g2 @ CHR '','' # a @ CHR ''{'' # junk) = None"
proof -
  have x: "lit CHR ''}'' (g1 @ CHR ''}'' # g2 @ CHR '','' # a @ CHR ''{'' # junk) =
      Some (g2 @ CHR '','' # a @ CHR ''{'' # junk)"
    by (rule lit_gap [OF assms(1) punct_not_space(3)])
  have y: "lit CHR '','' (g2 @ CHR '','' # a @ CHR ''{'' # junk) = Some (a @ CHR ''{'' # junk)"
    by (rule lit_gap [OF assms(2) punct_not_space(2)])
  have z: "lit CHR ''{'' (a @ CHR ''{'' # junk) = Some junk"
    by (rule lit_gap [OF assms(3) punct_not_space(1)])
  show ?thesis
    unfolding scan_middle_def
    using unparsable_scan_i [OF assms(4)] by (simp only: x y z option.case)
qed

lemma valid_word_gap: "valid_word w \<Longrightarrow> list_all isspace (fst w)"
  by (cases w) simp

lemma scan_key_junk:
  assumes "stored_len_matches nwords ks" and "0 < nwords" and "field_of nwords f"
    and "unparsable junk"
  shows "scan_key nwords (key_text_upto f ks @ junk) = None"
proof -
  note v = assms(1) [unfolded stored_len_matches_def record_shape_def]
  from v assms(2) obtain n0 ns where n: "n_source ks = n0 # ns" and ln: "length ns = nwords - 1"
    by (cases "n_source ks") auto
  from v assms(2) obtain r0 rs where r: "rr_source ks = r0 # rs" and lr: "length rs = nwords - 1"
    by (cases "rr_source ks") auto
  from v n r have vw: "valid_word n0" "list_all valid_word ns" "valid_word r0" "list_all valid_word rs"
    by simp_all
  from v have le: "store_int (word_read (len_source ks)) = int nwords" by simp
  show ?thesis
  proof (cases f)
    case Len_field
    have "scan_head (fst (len_source ks) @ CHR ''{'' # junk) = None"
      using v assms(4) by (intro scan_head_junk_len valid_word_gap) simp_all
    then show ?thesis by (simp add: Len_field scan_key_def)
  next
    case N0inv_field
    have "scan_head (word_text CHR ''{'' (len_source ks) @ fst (n0inv_source ks) @ CHR '','' # junk) = None"
      using v assms(4) by (intro scan_head_junk_n0inv valid_word_gap) simp_all
    then show ?thesis by (simp add: N0inv_field scan_key_def)
  next
    case (N_field i)
    with assms(3) have i: "i < nwords" by simp
    show ?thesis
    proof (cases i)
      case 0
      have "scan_head (word_text CHR ''{'' (len_source ks) @ word_text CHR '','' (n0inv_source ks) @
          gap_n ks @ CHR '','' # fst n0 @ CHR ''{'' # junk) = None"
        using v vw(1) assms(4) by (intro scan_head_junk_n valid_word_gap) simp_all
      then show ?thesis by (simp add: N_field 0 scan_key_def words_upto_def n)
    next
      case (Suc j)
      with i ln have j: "j < length ns" by simp
      define a where "a = fst (ns ! j)"
      have sa: "list_all isspace a"
        unfolding a_def using vw(2) j by (intro valid_word_gap) (simp add: list_all_length)
      define R1 where "R1 = concat (map (word_text CHR '','') (take j ns)) @ a @ CHR '','' # junk"
      have vt: "list_all valid_word (take j ns)"
        using vw(2) by (auto simp: list_all_iff dest: in_set_takeD)
      have "boundary (a @ CHR '','' # junk)" by (rule boundary_gap [OF sa]) simp
      then have b1: "boundary R1" unfolding R1_def by (rule boundary_words [OF vt])
      have kt: "key_text_upto f ks @ junk =
          word_text CHR ''{'' (len_source ks) @ word_text CHR '','' (n0inv_source ks) @
          gap_n ks @ CHR '','' # word_text CHR ''{'' n0 @ R1"
        by (simp add: N_field Suc words_upto_def n R1_def a_def)
      have h: "scan_head (key_text_upto f ks @ junk) =
          Some (word_read (len_source ks), word_read (n0inv_source ks), word_read n0, R1)"
        unfolding kt using v vw(1) b1 by (intro scan_head_valid) simp_all
      have "length (take j ns) < nwords - Suc 0" using j ln by simp
      from scan_words_junk [OF vt this sa assms(4)]
      have w1: "scan_words (nwords - Suc 0) R1 = None" by (simp add: R1_def)
      show ?thesis by (simp add: scan_key_def h le w1)
    qed
  next
    case (RR_field i)
    with assms(3) have i: "i < nwords" by simp
    define R2 where "R2 = gap_n_close ks @ CHR ''}'' # gap_rr ks @ CHR '','' # words_upto (rr_source ks) i @ junk"
    define R1 where "R1 = concat (map (word_text CHR '','') ns) @ R2"
    have kt: "key_text_upto f ks @ junk =
        word_text CHR ''{'' (len_source ks) @ word_text CHR '','' (n0inv_source ks) @
        gap_n ks @ CHR '','' # word_text CHR ''{'' n0 @ R1"
      by (simp add: RR_field n R1_def R2_def)
    have b2: "boundary R2" unfolding R2_def using v by (intro boundary_gap) simp_all
    have b1: "boundary R1" unfolding R1_def by (rule boundary_words [OF vw(2) b2])
    have h: "scan_head (key_text_upto f ks @ junk) =
        Some (word_read (len_source ks), word_read (n0inv_source ks), word_read n0, R1)"
      unfolding kt using v vw(1) b1 by (intro scan_head_valid) simp_all
    have w1: "scan_words (nwords - Suc 0) R1 = Some (map word_read ns, R2)"
      using scan_words_valid [OF vw(2) b2] by (simp add: R1_def ln)
    show ?thesis
    proof (cases i)
      case 0
      have "scan_middle (gap_n_close ks @ CHR ''}'' # gap_rr ks @ CHR '','' # fst r0 @ CHR ''{'' # junk) = None"
        using v vw(3) assms(4) by (intro scan_middle_junk valid_word_gap) simp_all
      then have m: "scan_middle R2 = None"
        by (simp add: R2_def 0 words_upto_def r)
      show ?thesis by (simp add: scan_key_def h le w1 m)
    next
      case (Suc j)
      with i lr have j: "j < length rs" by simp
      define a where "a = fst (rs ! j)"
      have sa: "list_all isspace a"
        unfolding a_def using vw(4) j by (intro valid_word_gap) (simp add: list_all_length)
      define R3 where "R3 = concat (map (word_text CHR '','') (take j rs)) @ a @ CHR '','' # junk"
      have vt: "list_all valid_word (take j rs)"
        using vw(4) by (auto simp: list_all_iff dest: in_set_takeD)
      have "boundary (a @ CHR '','' # junk)" by (rule boundary_gap [OF sa]) simp
      then have b3: "boundary R3" unfolding R3_def by (rule boundary_words [OF vt])
      have R2': "R2 = gap_n_close ks @ CHR ''}'' # gap_rr ks @ CHR '','' # word_text CHR ''{'' r0 @ R3"
        by (simp add: R2_def Suc words_upto_def r R3_def a_def)
      have m: "scan_middle R2 = Some (word_read r0, R3)"
        unfolding R2' using v vw(3) b3 by (intro scan_middle_valid) simp_all
      have "length (take j rs) < nwords - Suc 0" using j lr by simp
      from scan_words_junk [OF vt this sa assms(4)]
      have w2: "scan_words (nwords - Suc 0) R3 = None" by (simp add: R3_def)
      show ?thesis by (simp add: scan_key_def h le w1 m w2)
    qed
  qed
qed

lemma load_keys_loop_exit: "scan_key nwords f = None \<Longrightarrow> load_keys_loop nwords f out = None"
  by (subst load_keys_loop.simps) simp

subsection \<open>Well-formed records and the stored length\<close>

lemma store_int_range:
  "- (2 ^ 31) \<le> v \<Longrightarrow> v < 2 ^ 31 \<Longrightarrow> store_int (strtoimax_range v) = v"
  by (simp add: store_int_def strtoimax_range_def INTMAX_MIN_def INTMAX_MAX_def int_word_sint)

lemma valid_stored:
  assumes "int nwords < 2 ^ 31" and "valid_key_source nwords ks"
  shows "stored_len_matches nwords ks"
proof -
  from assms(2) have s: "record_shape nwords ks" and l: "word_value (len_source ks) = int nwords"
    by (simp_all add: valid_key_source_def)
  have "store_int (strtoimax_range (int nwords)) = int nwords"
    using assms(1) by (intro store_int_range) simp_all
  with s l show ?thesis
    by (simp add: stored_len_matches_def word_read_def)
qed

lemma valid_stored_all:
  assumes "int nwords < 2 ^ 31" and "list_all (valid_key_source nwords) kss"
  shows "list_all (stored_len_matches nwords) kss"
  using assms(2) valid_stored [OF assms(1)] by (induction kss) simp_all

lemma key_of_len: "stored_len_matches nwords ks \<Longrightarrow> len (key_of ks) = int nwords"
  by (simp add: stored_len_matches_def key_of_def)

lemma key_of_len_all:
  "list_all (stored_len_matches nwords) kss \<Longrightarrow> list_all (\<lambda>k. len k = int nwords) (map key_of kss)"
  by (induction kss) (simp_all add: key_of_len)

text \<open>
  Claim C3, as amended. For keys of \<open>nwords\<close> words, \<open>nwords\<close> a positive int: a file of
  one or more well-formed records (\<open>len\<close> the number \<open>nwords\<close>) gives exactly the keys of
  its records, in the order of the file, and their number; each number of a key is the
  one written, limited to 64 bits by the conversion and cut to the 32 bits of its field.
  A file that cannot be opened gives no keys. After any number of well-formed records,
  each followed by a comma, the parse fails and no key is returned when the \<open>len\<close> of the
  next record, as it is stored in the int, is not \<open>nwords\<close>, which is so for every \<open>len\<close>
  within the range of an int that is another number than \<open>nwords\<close>; a last record whose
  \<open>len\<close> is another number but is stored as \<open>nwords\<close> is read as a key like the others.
  The parse also fails when in the next record the text at the place of a numeric field
  (\<open>len\<close>, \<open>n0inv\<close>, a word of either array) is no number, when a character other
  than a comma or white space follows the last record, and when the file ends behind the
  comma of a record or is empty.
\<close>

theorem load_keys_all_or_nothing:
  assumes "0 < nwords" and "int nwords < 2 ^ 31" and "list_all (valid_key_source nwords) kss"
  shows
    "(kss \<noteq> [] \<longrightarrow>
        load_keys nwords (Some (file_text kss)) = Some (map key_of kss) \<and>
        numKeys (load_keys nwords (Some (file_text kss))) = length kss \<and>
        list_all (\<lambda>k. len k = int nwords) (map key_of kss)) \<and>
     load_keys nwords None = None \<and>
     numKeys (load_keys nwords None) = 0 \<and>
     (valid_word w \<and> store_int (word_read w) \<noteq> int nwords \<and> boundary rest \<longrightarrow>
        load_keys nwords (Some (records_text kss @ word_text CHR ''{'' w @ rest)) = None) \<and>
     (valid_word w \<and> word_value w \<noteq> int nwords \<and>
      - (2 ^ 31) \<le> word_value w \<and> word_value w < 2 ^ 31 \<and> boundary rest \<longrightarrow>
        load_keys nwords (Some (records_text kss @ word_text CHR ''{'' w @ rest)) = None) \<and>
     (stored_len_matches nwords ks \<longrightarrow>
        load_keys nwords (Some (records_text kss @ key_text ks)) =
          Some (map key_of kss @ [key_of ks])) \<and>
     (valid_key_source nwords ks \<and> field_of nwords fld \<and> unparsable junk \<longrightarrow>
        load_keys nwords (Some (records_text kss @ key_text_upto fld ks @ junk)) = None) \<and>
     (kss \<noteq> [] \<and> c \<noteq> CHR '','' \<and> \<not> isspace c \<longrightarrow>
        load_keys nwords (Some (file_text kss @ c # rest)) = None) \<and>
     load_keys nwords (Some (records_text kss)) = None"
proof -
  note vs = valid_stored_all [OF assms(2,3)]
  have wrong: "load_keys nwords (Some (records_text kss @ word_text CHR ''{'' w @ rest)) = None"
    if "valid_word w" and "store_int (word_read w) \<noteq> int nwords" and "boundary rest"
  proof -
    from that have "scan_key nwords (word_text CHR ''{'' w @ rest) = None"
      by (intro scan_key_wrong_len) simp_all
    then show ?thesis
      using load_keys_loop_records [OF vs assms(1), of "word_text CHR ''{'' w @ rest" "[]"]
      by (simp add: load_keys_def load_keys_loop_exit)
  qed
  show ?thesis
  proof (intro conjI impI)
    assume ne: "kss \<noteq> []"
    from load_keys_loop_file [OF vs ne assms(1), of "[]"]
    show ok: "load_keys nwords (Some (file_text kss)) = Some (map key_of kss)"
      by (simp add: load_keys_def)
    then show "numKeys (load_keys nwords (Some (file_text kss))) = length kss"
      by (simp add: numKeys_def)
    show "list_all (\<lambda>k. len k = int nwords) (map key_of kss)"
      by (rule key_of_len_all [OF vs])
  next
    show "load_keys nwords None = None" by (simp add: load_keys_def)
    then show "numKeys (load_keys nwords None) = 0" by (simp add: numKeys_def)
  next
    assume "valid_word w \<and> store_int (word_read w) \<noteq> int nwords \<and> boundary rest"
    then show "load_keys nwords (Some (records_text kss @ word_text CHR ''{'' w @ rest)) = None"
      by (intro wrong) simp_all
  next
    assume a: "valid_word w \<and> word_value w \<noteq> int nwords \<and>
      - (2 ^ 31) \<le> word_value w \<and> word_value w < 2 ^ 31 \<and> boundary rest"
    then have "store_int (word_read w) = word_value w"
      unfolding word_read_def by (intro store_int_range) simp_all
    with a show "load_keys nwords (Some (records_text kss @ word_text CHR ''{'' w @ rest)) = None"
      by (intro wrong) simp_all
  next
    assume a: "stored_len_matches nwords ks"
    then have "list_all (stored_len_matches nwords) [ks]" by simp
    from load_keys_loop_file [OF this _ assms(1), of "map key_of kss"]
    have "load_keys_loop nwords (key_text ks) (map key_of kss) = Some (map key_of kss @ [key_of ks])"
      by simp
    then show "load_keys nwords (Some (records_text kss @ key_text ks)) =
        Some (map key_of kss @ [key_of ks])"
      using load_keys_loop_records [OF vs assms(1), of "key_text ks" "[]"]
      by (simp add: load_keys_def)
  next
    assume a: "valid_key_source nwords ks \<and> field_of nwords fld \<and> unparsable junk"
    then have "stored_len_matches nwords ks"
      using valid_stored [OF assms(2)] by simp
    with a have "scan_key nwords (key_text_upto fld ks @ junk) = None"
      using assms(1) by (intro scan_key_junk) simp_all
    then show "load_keys nwords (Some (records_text kss @ key_text_upto fld ks @ junk)) = None"
      using load_keys_loop_records [OF vs assms(1), of "key_text_upto fld ks @ junk" "[]"]
      by (simp add: load_keys_def load_keys_loop_exit)
  next
    assume a: "kss \<noteq> [] \<and> c \<noteq> CHR '','' \<and> \<not> isspace c"
    then show "load_keys nwords (Some (file_text kss @ c # rest)) = None"
      using load_keys_loop_trailing [OF vs _ assms(1), of c rest "[]"]
      by (simp add: load_keys_def)
  next
    have "scan_key nwords [] = None"
      by (simp add: scan_key_def scan_head_def lit_def skip_space_def match_char_def)
    then show "load_keys nwords (Some (records_text kss)) = None"
      using load_keys_loop_records [OF vs assms(1), of "[]" "[]"]
      by (simp add: load_keys_def load_keys_loop_exit)
  qed
qed

text \<open>
  A file of the two sample records gives their two keys in order, negative numbers as
  32-bit words; in a record of its own, the numbers \<open>2 ^ 63\<close> and \<open>- 2 ^ 63 - 1\<close> are
  stored as the low 32 bits of the two limits of 64 bits. After the first record and a
  comma, a record whose \<open>len\<close> is \<open>2 ^ 64 + 2\<close> (stored as -1) fails, one whose \<open>len\<close> is
  3 fails, and one whose \<open>len\<close> is \<open>2 ^ 32 + 2\<close> (stored as 2) is read as a second key; a
  record with an x where its second word is expected fails, and so do a semicolon
  behind the two records and a comma at the end of the file.
\<close>

lemma sample_digits:
  "digits_value 10 ''4294967298'' = 4294967298"
  "digits_value 10 ''9223372036854775808'' = 9223372036854775808"
  "digits_value 10 ''9223372036854775809'' = 9223372036854775809"
  "digits_value 10 ''18446744073709551618'' = 18446744073709551618"
  by (simp_all add: digits_value_def digit_value_def)

lemma sample_key_sources:
  "list_all (valid_key_source 2) [sample_key_1, sample_key_2]"
  "valid_key_source 2 sample_key_1"
  "file_text [sample_key_1, sample_key_2] =
     ''{2,0x11,{1,-2},{3,4}},\<newline>{ +2 , 0XfF ,{017 ,0 },{-0xa, 9} }\<newline>''"
  "records_text [sample_key_1] = ''{2,0x11,{1,-2},{3,4}},''"
  "word_text CHR ''{'' ([], [], Literal [] Decimal ''3'') @ '',0x11,{1,2,3},{4,5,6}}'' =
     ''{3,0x11,{1,2,3},{4,5,6}}''"
  "key_text_upto (N_field 1) sample_key_1 @ ''x},{3,4}}'' = ''{2,0x11,{1,x},{3,4}}''"
  "list_all (valid_key_source 2) [sample_key_4]"
  "file_text [sample_key_4] = ''{2,0x11,{9223372036854775808,-9223372036854775809},{3,4}}''"
  "word_text CHR ''{'' ([], [], Literal [] Decimal ''18446744073709551618'') @ '',0x11,{1,2},{3,4}}'' =
     ''{18446744073709551618,0x11,{1,2},{3,4}}''"
  "key_text sample_key_3 = ''{4294967298,0x11,{1,-2},{3,4}}''"
  "record_shape 2 sample_key_3"
  by code_simp+

lemma sample_stored_len:
  "word_value (len_source sample_key_3) = 4294967298"
  "store_int (word_read (len_source sample_key_3)) = 2"
  "stored_len_matches 2 sample_key_3"
  "store_int (word_read ([], [], Literal [] Decimal ''18446744073709551618'')) = - 1"
proof -
  show a: "word_value (len_source sample_key_3) = 4294967298"
    by (simp add: sample_key_3_def sample_digits)
  show b: "store_int (word_read (len_source sample_key_3)) = 2"
    unfolding word_read_def a
    by (simp add: store_int_def strtoimax_range_def INTMAX_MIN_def INTMAX_MAX_def)
  show "stored_len_matches 2 sample_key_3"
    using sample_key_sources(11) b by (simp add: stored_len_matches_def)
  show "store_int (word_read ([], [], Literal [] Decimal ''18446744073709551618'')) = - 1"
    by (simp add: word_read_def sample_digits store_int_def strtoimax_range_def
        INTMAX_MIN_def INTMAX_MAX_def)
qed

lemma sample_keys_of:
  "map key_of [sample_key_1, sample_key_2] =
     [\<lparr>len = 2, n0inv = 17, n = [1, 4294967294], rr = [3, 4]\<rparr>,
      \<lparr>len = 2, n0inv = 255, n = [15, 0], rr = [4294967286, 9]\<rparr>]"
  "key_of sample_key_1 = \<lparr>len = 2, n0inv = 17, n = [1, 4294967294], rr = [3, 4]\<rparr>"
  by code_simp+

lemma sample_keys_of_large:
  "map key_of [sample_key_4] = [\<lparr>len = 2, n0inv = 17, n = [4294967295, 0], rr = [3, 4]\<rparr>]"
  "key_of sample_key_3 = \<lparr>len = 2, n0inv = 17, n = [1, 4294967294], rr = [3, 4]\<rparr>"
proof -
  have one: "len (key_of sample_key_1) = 2"
    by (simp add: sample_keys_of(2))
  have "key_of sample_key_4 = (key_of sample_key_1)
      \<lparr>n := [store_word (strtoimax_range 9223372036854775808),
               store_word (strtoimax_range (- 9223372036854775809))]\<rparr>"
    by (simp add: key_of_def sample_key_4_def word_read_def sample_digits)
  then show "map key_of [sample_key_4] =
      [\<lparr>len = 2, n0inv = 17, n = [4294967295, 0], rr = [3, 4]\<rparr>]"
    by (simp add: sample_keys_of(2) store_word_def strtoimax_range_def INTMAX_MIN_def INTMAX_MAX_def)
  have "key_of sample_key_3 = (key_of sample_key_1)\<lparr>len := store_int (word_read (len_source sample_key_3))\<rparr>"
    by (simp add: key_of_def sample_key_3_def)
  then show "key_of sample_key_3 = \<lparr>len = 2, n0inv = 17, n = [1, 4294967294], rr = [3, 4]\<rparr>"
    by (simp add: sample_stored_len(2) sample_keys_of(2))
qed

lemma sample_failures:
  "valid_word ([], [], Literal [] Decimal ''3'')"
  "word_value ([], [], Literal [] Decimal ''3'') \<noteq> int 2"
  "- (2 ^ 31) \<le> word_value ([], [], Literal [] Decimal ''3'')"
  "word_value ([], [], Literal [] Decimal ''3'') < 2 ^ 31"
  "boundary '',0x11,{1,2,3},{4,5,6}}''"
  "valid_word ([], [], Literal [] Decimal ''18446744073709551618'')"
  "boundary '',0x11,{1,2},{3,4}}''"
  "field_of 2 (N_field 1)"
  "unparsable ''x},{3,4}}''"
  "\<not> isspace CHR '';''"
  by code_simp+

theorem load_keys_all_or_nothing_witness:
  "0 < (2::nat) \<and> int 2 < 2 ^ 31 \<and>
   list_all (valid_key_source 2) [sample_key_1, sample_key_2] \<and>
   load_keys 2 (Some ''{2,0x11,{1,-2},{3,4}},\<newline>{ +2 , 0XfF ,{017 ,0 },{-0xa, 9} }\<newline>'') =
     Some [\<lparr>len = 2, n0inv = 17, n = [1, 4294967294], rr = [3, 4]\<rparr>,
           \<lparr>len = 2, n0inv = 255, n = [15, 0], rr = [4294967286, 9]\<rparr>] \<and>
   list_all (valid_key_source 2) [sample_key_4] \<and>
   load_keys 2 (Some ''{2,0x11,{9223372036854775808,-9223372036854775809},{3,4}}'') =
     Some [\<lparr>len = 2, n0inv = 17, n = [4294967295, 0], rr = [3, 4]\<rparr>] \<and>
   valid_word ([], [], Literal [] Decimal ''18446744073709551618'') \<and>
   store_int (word_read ([], [], Literal [] Decimal ''18446744073709551618'')) = - 1 \<and>
   boundary '',0x11,{1,2},{3,4}}'' \<and>
   load_keys 2 (Some (''{2,0x11,{1,-2},{3,4}},'' @ ''{18446744073709551618,0x11,{1,2},{3,4}}'')) = None \<and>
   valid_word ([], [], Literal [] Decimal ''3'') \<and>
   word_value ([], [], Literal [] Decimal ''3'') \<noteq> int 2 \<and>
   - (2 ^ 31) \<le> word_value ([], [], Literal [] Decimal ''3'') \<and>
   word_value ([], [], Literal [] Decimal ''3'') < 2 ^ 31 \<and>
   boundary '',0x11,{1,2,3},{4,5,6}}'' \<and>
   load_keys 2 (Some (''{2,0x11,{1,-2},{3,4}},'' @ ''{3,0x11,{1,2,3},{4,5,6}}'')) = None \<and>
   stored_len_matches 2 sample_key_3 \<and>
   load_keys 2 (Some (''{2,0x11,{1,-2},{3,4}},'' @ ''{4294967298,0x11,{1,-2},{3,4}}'')) =
     Some [\<lparr>len = 2, n0inv = 17, n = [1, 4294967294], rr = [3, 4]\<rparr>,
           \<lparr>len = 2, n0inv = 17, n = [1, 4294967294], rr = [3, 4]\<rparr>] \<and>
   valid_key_source 2 sample_key_1 \<and> field_of 2 (N_field 1) \<and> unparsable ''x},{3,4}}'' \<and>
   load_keys 2 (Some (''{2,0x11,{1,-2},{3,4}},'' @ ''{2,0x11,{1,x},{3,4}}'')) = None \<and>
   \<not> isspace CHR '';'' \<and>
   load_keys 2 (Some (''{2,0x11,{1,-2},{3,4}},\<newline>{ +2 , 0XfF ,{017 ,0 },{-0xa, 9} }\<newline>'' @
     CHR '';'' # [])) = None \<and>
   load_keys 2 (Some ''{2,0x11,{1,-2},{3,4}},'') = None"
proof -
  have p: "0 < (2::nat)" by simp
  have q: "int 2 < 2 ^ 31" by simp
  have v1: "list_all (valid_key_source 2) [sample_key_1]"
    using sample_key_sources(2) by simp
  note T2 = load_keys_all_or_nothing [OF p q sample_key_sources(1)]
  note T1 = load_keys_all_or_nothing [OF p q v1]
  note T4 = load_keys_all_or_nothing [OF p q sample_key_sources(7)]
  have a: "load_keys 2 (Some ''{2,0x11,{1,-2},{3,4}},\<newline>{ +2 , 0XfF ,{017 ,0 },{-0xa, 9} }\<newline>'') =
     Some [\<lparr>len = 2, n0inv = 17, n = [1, 4294967294], rr = [3, 4]\<rparr>,
           \<lparr>len = 2, n0inv = 255, n = [15, 0], rr = [4294967286, 9]\<rparr>]"
  proof -
    have ne: "[sample_key_1, sample_key_2] \<noteq> []" by simp
    from T2 [THEN conjunct1, rule_format, OF ne, THEN conjunct1]
    show ?thesis unfolding sample_key_sources(3) sample_keys_of(1) .
  qed
  have a4: "load_keys 2 (Some ''{2,0x11,{9223372036854775808,-9223372036854775809},{3,4}}'') =
     Some [\<lparr>len = 2, n0inv = 17, n = [4294967295, 0], rr = [3, 4]\<rparr>]"
  proof -
    have ne: "[sample_key_4] \<noteq> []" by simp
    from T4 [THEN conjunct1, rule_format, OF ne, THEN conjunct1]
    show ?thesis unfolding sample_key_sources(8) sample_keys_of_large(1) .
  qed
  have b: "load_keys 2 (Some (''{2,0x11,{1,-2},{3,4}},'' @ ''{18446744073709551618,0x11,{1,2},{3,4}}'')) = None"
    using T1 [THEN conjunct2, THEN conjunct2, THEN conjunct2, THEN conjunct1, rule_format,
        of "([], [], Literal [] Decimal ''18446744073709551618'')" "'',0x11,{1,2},{3,4}}''"]
      sample_failures(6,7) sample_stored_len(4)
    unfolding sample_key_sources(4) append_assoc sample_key_sources(9)
    by simp
  have b2: "load_keys 2 (Some (''{2,0x11,{1,-2},{3,4}},'' @ ''{3,0x11,{1,2,3},{4,5,6}}'')) = None"
    using T1 [THEN conjunct2, THEN conjunct2, THEN conjunct2, THEN conjunct2, THEN conjunct1,
        rule_format, of "([], [], Literal [] Decimal ''3'')" "'',0x11,{1,2,3},{4,5,6}}''"]
      sample_failures(1,2,3,4,5)
    unfolding sample_key_sources(4) append_assoc sample_key_sources(5)
    by simp
  have s: "load_keys 2 (Some (''{2,0x11,{1,-2},{3,4}},'' @ ''{4294967298,0x11,{1,-2},{3,4}}'')) =
     Some [\<lparr>len = 2, n0inv = 17, n = [1, 4294967294], rr = [3, 4]\<rparr>,
           \<lparr>len = 2, n0inv = 17, n = [1, 4294967294], rr = [3, 4]\<rparr>]"
    using T1 [THEN conjunct2, THEN conjunct2, THEN conjunct2, THEN conjunct2, THEN conjunct2,
        THEN conjunct1, rule_format, OF sample_stored_len(3)]
    unfolding sample_key_sources(4) sample_key_sources(10)
    by (simp add: sample_keys_of(2) sample_keys_of_large(2))
  have c: "load_keys 2 (Some (''{2,0x11,{1,-2},{3,4}},'' @ ''{2,0x11,{1,x},{3,4}}'')) = None"
    using T1 [THEN conjunct2, THEN conjunct2, THEN conjunct2, THEN conjunct2, THEN conjunct2,
        THEN conjunct2, THEN conjunct1, rule_format, of sample_key_1 "N_field 1" "''x},{3,4}}''"]
      sample_key_sources(2) sample_failures(8,9)
    unfolding sample_key_sources(4) sample_key_sources(6)
    by simp
  have d: "load_keys 2 (Some (''{2,0x11,{1,-2},{3,4}},\<newline>{ +2 , 0XfF ,{017 ,0 },{-0xa, 9} }\<newline>'' @
     CHR '';'' # [])) = None"
    using T2 [THEN conjunct2, THEN conjunct2, THEN conjunct2, THEN conjunct2, THEN conjunct2,
        THEN conjunct2, THEN conjunct2, THEN conjunct1, rule_format, of "CHR '';''" "[]"]
      sample_failures(10)
    unfolding sample_key_sources(3)
    by simp
  have e: "load_keys 2 (Some ''{2,0x11,{1,-2},{3,4}},'') = None"
    using T1 [THEN conjunct2, THEN conjunct2, THEN conjunct2, THEN conjunct2, THEN conjunct2,
        THEN conjunct2, THEN conjunct2, THEN conjunct2]
    unfolding sample_key_sources(4) .
  show ?thesis
    using p q sample_key_sources(1,2,7) sample_stored_len(3,4) sample_failures a a4 b b2 s c d e
    by (intro conjI)
qed

text \<open>
  The claim as it is written fails for a \<open>len\<close> that is another number than the word
  count and is stored as the word count: for keys of two words, the record with \<open>len\<close>
  4294967298 is not rejected; \<open>load_keys\<close> returns it as one key, whose \<open>len\<close> is 2.
\<close>

theorem load_keys_len_stored_modulo_counterexample:
  "key_text sample_key_3 = ''{4294967298,0x11,{1,-2},{3,4}}'' \<and>
   word_value (len_source sample_key_3) = 4294967298 \<and>
   word_value (len_source sample_key_3) \<noteq> int 2 \<and>
   load_keys 2 (Some ''{4294967298,0x11,{1,-2},{3,4}}'') =
     Some [\<lparr>len = 2, n0inv = 17, n = [1, 4294967294], rr = [3, 4]\<rparr>] \<and>
   numKeys (load_keys 2 (Some ''{4294967298,0x11,{1,-2},{3,4}}'')) = 1"
proof -
  have "list_all (stored_len_matches 2) [sample_key_3]"
    using sample_stored_len(3) by simp
  from load_keys_loop_file [OF this, of "[]"]
  have "load_keys_loop 2 (key_text sample_key_3) [] = Some [key_of sample_key_3]"
    by simp
  then have k: "load_keys 2 (Some ''{4294967298,0x11,{1,-2},{3,4}}'') =
     Some [\<lparr>len = 2, n0inv = 17, n = [1, 4294967294], rr = [3, 4]\<rparr>]"
    unfolding sample_key_sources(10) sample_keys_of_large(2)
    by (simp add: load_keys_def)
  then have "numKeys (load_keys 2 (Some ''{4294967298,0x11,{1,-2},{3,4}}'')) = 1"
    by (simp add: numKeys_def)
  with k sample_key_sources(10) sample_stored_len(1) show ?thesis
    by simp
qed
end
